theory Spec2Isabelle
  imports Complex_Main "HOL-Library.Sublist"
begin

section \<open>Python values shared by both scripts\<close>

text \<open>
  Strings are lists of characters. Everything the scripts compare against is ASCII, so a
  \<^typ>\<open>char\<close> stands for one code point below 256. The backslash cannot be written inside a
  string literal and is spelled \<open>CHR 0x5C\<close>; the line feed is \<open>CHR 0x0A\<close>.
\<close>

abbreviation bslash :: char where
  "bslash \<equiv> CHR 0x5C"

abbreviation newline :: char where
  "newline \<equiv> CHR 0x0A"

text \<open>The exceptions the modelled functions can raise.\<close>

datatype error =
    KeyError string
  | IndexError
  | ReError
  | FileNotFoundError
  | JSONDecodeError

text \<open>Python's \<^verbatim>\<open>sub in s\<close> on two strings: \<open>sub\<close> occurs in \<open>s\<close> as a contiguous run.\<close>

fun py_in :: "string \<Rightarrow> string \<Rightarrow> bool" where
  "py_in sub [] = (sub = [])"
| "py_in sub (c # cs) = (prefix sub (c # cs) \<or> py_in sub cs)"

text \<open>
  Python's \<^verbatim>\<open>dict\<close> keeps insertion order: assigning to a key that is present replaces the
  value where the key stands, assigning to a new key appends it.
\<close>

fun dict_set :: "'k \<Rightarrow> 'a \<Rightarrow> ('k \<times> 'a) list \<Rightarrow> ('k \<times> 'a) list" where
  "dict_set k v [] = [(k, v)]"
| "dict_set k v ((k', v') # d) =
     (if k' = k then (k', v) # d else (k', v') # dict_set k v d)"

text \<open>\<^verbatim>\<open>str(n)\<close> for a non-negative integer: its decimal digits.\<close>

definition digit_char :: "nat \<Rightarrow> char" where
  "digit_char d = ''0123456789'' ! d"

function str_nat :: "nat \<Rightarrow> string" where
  "str_nat n = (if n < 10 then [digit_char n] else str_nat (n div 10) @ [digit_char (n mod 10)])"
  by pat_completeness auto
termination
  by (relation "measure (\<lambda>n. n)") auto

declare str_nat.simps [simp del]

text \<open>\<^verbatim>\<open>"\n".join(lines)\<close>.\<close>

fun join_lines :: "string list \<Rightarrow> string" where
  "join_lines [] = []"
| "join_lines [l] = l"
| "join_lines (l # l' # ls) = l @ newline # join_lines (l' # ls)"

section \<open>The manifest as both scripts read it\<close>

text \<open>
  One object of the manifest's \<^verbatim>\<open>pipeline\<close> list, as \<^verbatim>\<open>json.load\<close> returns it. \<^verbatim>\<open>name\<close>
  and \<^verbatim>\<open>cmd\<close> may be absent (\<open>None\<close>); \<^verbatim>\<open>inputs\<close> and \<^verbatim>\<open>outputs\<close> are only ever read with
  \<^verbatim>\<open>.get(key, [])\<close>, so an absent list is the empty one.
\<close>

record step_config =
  sc_name :: "string option"
  sc_cmd :: "string option"
  sc_inputs :: "string list"
  sc_outputs :: "string list"
  sc_flake :: "string option"

text \<open>\<^verbatim>\<open>self.config\<close>; \<^verbatim>\<open>config.get("pipeline", [])\<close> is the field \<open>pipeline\<close>.\<close>

record config =
  pipeline :: "step_config list"

text \<open>\<^verbatim>\<open>step.get("cmd", "")\<close>.\<close>

definition get_cmd :: "step_config \<Rightarrow> string" where
  "get_cmd step = (case sc_cmd step of None \<Rightarrow> [] | Some c \<Rightarrow> c)"

section \<open>extract-values.py\<close>

subsection \<open>Data\<close>

text \<open>
  \<^verbatim>\<open>ExtractedValue\<close>. The value itself is \<^verbatim>\<open>Any\<close> in the source and stays a type parameter;
  the dataclass default of \<^verbatim>\<open>value_type\<close> is \<^verbatim>\<open>"unknown"\<close>.
\<close>

record 'v extracted_value =
  ev_name :: string
  ev_value :: 'v
  ev_formatted_value :: string
  ev_step :: string
  ev_script :: "string option"
  ev_value_type :: string
  ev_line :: "int option"

definition default_value_type :: string where
  "default_value_type = ''unknown''"

text \<open>
  One record of the provenance log, a JSON object. Each of the keys the reduction reads
  may be missing (\<open>None\<close>). A \<^verbatim>\<open>type\<close> that is not a string compares unequal to
  \<^verbatim>\<open>"value"\<close> like any other string, so \<open>le_type\<close> loses nothing by being a string.
\<close>

record 'v log_entry =
  le_type :: "string option"
  le_name :: "string option"
  le_value :: "'v option"
  le_filepath :: "string option"
  le_lineno :: "int option"

text \<open>
  The two files of the \<^verbatim>\<open>.csf\<close> directory the extractor touches:
  \<^verbatim>\<open>.csf/provenance.log\<close> as its lines (\<open>None\<close> when the file does not exist) and
  \<^verbatim>\<open>.csf/values.tex\<close> as its content.
\<close>

record csf_files =
  provenance_log :: "string list option"
  values_tex :: "string option"

text \<open>
  The state of a \<^verbatim>\<open>ValueExtractor\<close>. \<^verbatim>\<open>json.loads\<close> and \<^verbatim>\<open>str\<close> belong to Python, not to the
  repository: the functions below take them as the parameters \<open>json_loads\<close> (\<open>None\<close> when
  a line is not JSON, where Python raises) and \<open>py_str\<close>.
\<close>

record 'v value_extractor =
  ve_config :: config
  ve_values :: "(string \<times> 'v extracted_value) list"

subsection \<open>\<^verbatim>\<open>read_provenance_log\<close>\<close>

fun load_lines :: "(string \<Rightarrow> 'v log_entry option) \<Rightarrow> string list \<Rightarrow> error + 'v log_entry list" where
  "load_lines json_loads [] = Inr []"
| "load_lines json_loads (l # ls) =
     (case json_loads l of
        None \<Rightarrow> Inl JSONDecodeError
      | Some e \<Rightarrow>
          (case load_lines json_loads ls of
             Inl err \<Rightarrow> Inl err
           | Inr es \<Rightarrow> Inr (e # es)))"

definition read_provenance_log ::
  "(string \<Rightarrow> 'v log_entry option) \<Rightarrow> csf_files \<Rightarrow> error + 'v log_entry list" where
  "read_provenance_log json_loads files =
     (case provenance_log files of
        None \<Rightarrow> Inr []
      | Some ls \<Rightarrow> load_lines json_loads ls)"

subsection \<open>\<^verbatim>\<open>_find_step_for_script\<close>\<close>

fun find_step_in :: "step_config list \<Rightarrow> string \<Rightarrow> string option" where
  "find_step_in [] script_path = None"
| "find_step_in (step # steps) script_path =
     (if py_in script_path (get_cmd step) then sc_name step
      else find_step_in steps script_path)"

definition find_step_for_script :: "config \<Rightarrow> string \<Rightarrow> string option" where
  "find_step_for_script cfg script_path = find_step_in (pipeline cfg) script_path"

subsection \<open>\<^verbatim>\<open>extract_values_from_log\<close>\<close>

text \<open>\<^verbatim>\<open>step or "unknown"\<close>: \<^verbatim>\<open>None\<close> and the empty string are falsy.\<close>

definition step_or_unknown :: "string option \<Rightarrow> string" where
  "step_or_unknown step =
     (case step of None \<Rightarrow> ''unknown'' | Some s \<Rightarrow> if s = [] then ''unknown'' else s)"

text \<open>The body of the loop for one entry, on the dictionary built so far.\<close>

definition reduce_entry ::
  "('v \<Rightarrow> string) \<Rightarrow> config \<Rightarrow> (string \<times> 'v extracted_value) list \<Rightarrow> 'v log_entry
     \<Rightarrow> error + (string \<times> 'v extracted_value) list" where
  "reduce_entry py_str cfg values entry =
     (if le_type entry \<noteq> Some ''value'' then Inr values
      else case le_name entry of
        None \<Rightarrow> Inl (KeyError ''name'')
      | Some name \<Rightarrow>
     (case le_value entry of
        None \<Rightarrow> Inl (KeyError ''value'')
      | Some val \<Rightarrow>
     (case le_filepath entry of
        None \<Rightarrow> Inl (KeyError ''filepath'')
      | Some script \<Rightarrow>
     (case le_lineno entry of
        None \<Rightarrow> Inl (KeyError ''lineno'')
      | Some line \<Rightarrow>
          (let step = find_step_for_script cfg script
           in Inr (dict_set name
                \<lparr> ev_name = name,
                  ev_value = val,
                  ev_formatted_value = py_str val,
                  ev_step = step_or_unknown step,
                  ev_script = Some script,
                  ev_value_type = default_value_type,
                  ev_line = Some line \<rparr> values))))))"

fun reduce_entries ::
  "('v \<Rightarrow> string) \<Rightarrow> config \<Rightarrow> (string \<times> 'v extracted_value) list \<Rightarrow> 'v log_entry list
     \<Rightarrow> error + (string \<times> 'v extracted_value) list" where
  "reduce_entries py_str cfg values [] = Inr values"
| "reduce_entries py_str cfg values (entry # entries) =
     (case reduce_entry py_str cfg values entry of
        Inl err \<Rightarrow> Inl err
      | Inr values' \<Rightarrow> reduce_entries py_str cfg values' entries)"

text \<open>
  \<^verbatim>\<open>extract_values_from_log\<close> reads the log, reduces it from the empty dictionary, stores
  the result in \<^verbatim>\<open>self.values\<close> and returns it.
\<close>

definition extract_values_from_log ::
  "(string \<Rightarrow> 'v log_entry option) \<Rightarrow> ('v \<Rightarrow> string) \<Rightarrow> csf_files \<Rightarrow> 'v value_extractor
     \<Rightarrow> error + 'v value_extractor" where
  "extract_values_from_log json_loads py_str files self =
     (case read_provenance_log json_loads files of
        Inl err \<Rightarrow> Inl err
      | Inr log_entries \<Rightarrow>
          (case reduce_entries py_str (ve_config self) [] log_entries of
             Inl err \<Rightarrow> Inl err
           | Inr values \<Rightarrow> Inr (self\<lparr>ve_values := values\<rparr>)))"

subsection \<open>\<^verbatim>\<open>generate_values_tex\<close> and \<^verbatim>\<open>create_csf_values_file\<close>\<close>

text \<open>The line \<^verbatim>\<open>\csfdefinevalue{name}{value}{step}{value_type}\<close> of one value.\<close>

definition define_line :: "('v \<Rightarrow> string) \<Rightarrow> string \<times> 'v extracted_value \<Rightarrow> string" where
  "define_line py_str item =
     (case item of (name, v) \<Rightarrow>
        bslash # ''csfdefinevalue{'' @ name @ ''}{'' @ py_str (ev_value v) @ ''}{''
          @ ev_step v @ ''}{'' @ ev_value_type v @ ''}'')"

definition no_values_marker :: string where
  "no_values_marker = ''% No values extracted'' @ [newline]"

definition generate_values_tex :: "('v \<Rightarrow> string) \<Rightarrow> 'v value_extractor \<Rightarrow> string" where
  "generate_values_tex py_str self =
     (if ve_values self = [] then no_values_marker
      else join_lines
        ([''% CSF Values - Auto-generated by extract-values.py'',
          ''% Generated from '' @ str_nat (length (ve_values self)) @ '' statistical annotations'',
          ''% Do not edit manually - regenerate with '' @ [CHR 0x27] @ ''cstex-compile'' @ [CHR 0x27],
          '''']
         @ map (define_line py_str) (ve_values self)
         @ ['''',
            ''% Mark values as cached'',
            bslash # ''csfvaluescachedtrue'',
            '''']))"

definition create_csf_values_file ::
  "('v \<Rightarrow> string) \<Rightarrow> 'v value_extractor \<Rightarrow> csf_files \<Rightarrow> csf_files" where
  "create_csf_values_file py_str self files =
     files\<lparr>values_tex := Some (generate_values_tex py_str self)\<rparr>"

text \<open>
  \<^verbatim>\<open>process_document\<close>: extract, then write the file. The prints are left out. The result
  is the extractor with its values and the files afterwards.
\<close>

definition process_document ::
  "(string \<Rightarrow> 'v log_entry option) \<Rightarrow> ('v \<Rightarrow> string) \<Rightarrow> 'v value_extractor \<Rightarrow> csf_files
     \<Rightarrow> error + ('v value_extractor \<times> csf_files)" where
  "process_document json_loads py_str self files =
     (case extract_values_from_log json_loads py_str files self of
        Inl err \<Rightarrow> Inl err
      | Inr self' \<Rightarrow> Inr (self', create_csf_values_file py_str self' files))"

section \<open>process-metadata.py\<close>

subsection \<open>Data\<close>

record pipeline_step =
  ps_name :: string
  ps_cmd :: string
  ps_inputs :: "string list"
  ps_outputs :: "string list"
  ps_flake :: "string option"

record artifact_metadata =
  am_path :: string
  am_step_name :: string
  am_script_path :: "string option"
  am_line_number :: "int option"
  am_dependencies :: "string list"

text \<open>
  A \<^verbatim>\<open>MetadataProcessor\<close>: the dictionary \<^verbatim>\<open>pipeline_steps\<close>, keyed by step name in
  insertion order, and the manifest itself.
\<close>

record metadata_processor =
  mp_pipeline_steps :: "(string \<times> pipeline_step) list"
  mp_config :: config

subsection \<open>\<^verbatim>\<open>_load_config\<close>\<close>

text \<open>
  The loop over the manifest's steps: \<^verbatim>\<open>step_config["name"]\<close> and \<^verbatim>\<open>step_config["cmd"]\<close>
  raise \<^verbatim>\<open>KeyError\<close> when absent; the step is stored under its name.
\<close>

fun load_steps ::
  "step_config list \<Rightarrow> (string \<times> pipeline_step) list \<Rightarrow> error + (string \<times> pipeline_step) list" where
  "load_steps [] d = Inr d"
| "load_steps (sc # scs) d =
     (case sc_name sc of
        None \<Rightarrow> Inl (KeyError ''name'')
      | Some n \<Rightarrow>
     (case sc_cmd sc of
        None \<Rightarrow> Inl (KeyError ''cmd'')
      | Some c \<Rightarrow>
          load_steps scs
            (dict_set n \<lparr> ps_name = n, ps_cmd = c, ps_inputs = sc_inputs sc,
                          ps_outputs = sc_outputs sc, ps_flake = sc_flake sc \<rparr> d)))"

definition load_config :: "config \<Rightarrow> error + metadata_processor" where
  "load_config cfg =
     (case load_steps (pipeline cfg) [] of
        Inl err \<Rightarrow> Inl err
      | Inr d \<Rightarrow> Inr \<lparr> mp_pipeline_steps = d, mp_config = cfg \<rparr>)"

subsection \<open>Glob patterns\<close>

text \<open>\<^verbatim>\<open>output_pattern.replace("*", ".*").replace("?", ".")\<close>.\<close>

definition replace_char :: "char \<Rightarrow> string \<Rightarrow> string \<Rightarrow> string" where
  "replace_char old new s = concat (map (\<lambda>c. if c = old then new else [c]) s)"

definition glob_to_regex :: "string \<Rightarrow> string" where
  "glob_to_regex output_pattern =
     replace_char (CHR ''?'') ''.'' (replace_char (CHR ''*'') ''.*'' output_pattern)"

text \<open>
  \<^verbatim>\<open>re.match(regex_pattern, s)\<close> belongs to Python. The functions of this section take it as
  the parameter \<open>re_match\<close>: \<open>None\<close> when the pattern does not compile (\<^verbatim>\<open>re.error\<close>),
  otherwise whether a match object comes back.

  \<open>py_re_match\<close> is that function on the patterns built from literal characters, \<^verbatim>\<open>.\<close>
  and a \<^verbatim>\<open>*\<close> after either. \<^verbatim>\<open>re.match\<close> anchors the match at the start of the string only:
  it succeeds when some prefix of the string matches. \<^verbatim>\<open>.\<close> matches every character but
  the line feed. A \<^verbatim>\<open>*\<close> with nothing to repeat does not compile. Any other
  metacharacter is outside this fragment, and \<open>rx_parse\<close> answers \<open>None\<close> for it too; the
  theorems below evaluate \<open>py_re_match\<close> on patterns of the fragment only.
\<close>

datatype rx_atom = Lit char | AnyChar

datatype rx_item = Once rx_atom | Many rx_atom

definition rx_meta :: "char \<Rightarrow> bool" where
  "rx_meta c = (c \<in> set ([bslash] @ ''^$*+?{}[]()|''))"

fun rx_parse :: "string \<Rightarrow> rx_item list option" where
  "rx_parse [] = Some []"
| "rx_parse (c # cs) =
     (if rx_meta c then None
      else let a = (if c = CHR ''.'' then AnyChar else Lit c)
           in (case cs of
                 [] \<Rightarrow> Some [Once a]
               | c' # cs' \<Rightarrow>
                   if c' = CHR ''*'' then map_option ((#) (Many a)) (rx_parse cs')
                   else map_option ((#) (Once a)) (rx_parse (c' # cs'))))"

fun rx_atom_ok :: "rx_atom \<Rightarrow> char \<Rightarrow> bool" where
  "rx_atom_ok (Lit l) c = (c = l)"
| "rx_atom_ok AnyChar c = (c \<noteq> newline)"

fun rx_match :: "rx_item list \<Rightarrow> string \<Rightarrow> bool" where
  "rx_match [] s = True"
| "rx_match (Once a # rs) [] = False"
| "rx_match (Once a # rs) (c # cs) = (rx_atom_ok a c \<and> rx_match rs cs)"
| "rx_match (Many a # rs) [] = rx_match rs []"
| "rx_match (Many a # rs) (c # cs) =
     ((rx_atom_ok a c \<and> rx_match (Many a # rs) cs) \<or> rx_match rs (c # cs))"

definition py_re_match :: "string \<Rightarrow> string \<Rightarrow> bool option" where
  "py_re_match regex_pattern s = map_option (\<lambda>rs. rx_match rs s) (rx_parse regex_pattern)"

text \<open>
  The glob semantics the specification words: the whole name is matched, \<^verbatim>\<open>*\<close> against
  any run of characters and \<^verbatim>\<open>?\<close> against exactly one.
\<close>

fun spec_glob_match :: "string \<Rightarrow> string \<Rightarrow> bool" where
  "spec_glob_match [] s = (s = [])"
| "spec_glob_match (p # ps) [] = (p = CHR ''*'' \<and> spec_glob_match ps [])"
| "spec_glob_match (p # ps) (c # cs) =
     (if p = CHR ''*'' then spec_glob_match ps (c # cs) \<or> spec_glob_match (p # ps) cs
      else (p = CHR ''?'' \<or> p = c) \<and> spec_glob_match ps cs)"

subsection \<open>\<^verbatim>\<open>str.split()\<close> and the script of a step\<close>

text \<open>\<^verbatim>\<open>str.isspace\<close> on the code points below 256.\<close>

definition py_isspace :: "char \<Rightarrow> bool" where
  "py_isspace c =
     (of_char c \<in> {9, 10, 11, 12, 13, 28, 29, 30, 31, 32, 133, 160 :: nat})"

text \<open>\<^verbatim>\<open>s.split()\<close>: the maximal runs of characters that are not white space.\<close>

fun split_from :: "string \<Rightarrow> string \<Rightarrow> string list" where
  "split_from cur [] = (if cur = [] then [] else [cur])"
| "split_from cur (c # cs) =
     (if py_isspace c then (if cur = [] then split_from [] cs else cur # split_from [] cs)
      else split_from (cur @ [c]) cs)"

definition py_split :: "string \<Rightarrow> string list" where
  "py_split s = split_from [] s"

text \<open>\<^verbatim>\<open>xs[-1]\<close>.\<close>

definition last_item :: "'a list \<Rightarrow> error + 'a" where
  "last_item xs = (if xs = [] then Inl IndexError else Inr (last xs))"

text \<open>
  \<^verbatim>\<open>_find_generating_script\<close>. \<open>file_exists part\<close> says whether
  \<^verbatim>\<open>(self.project_root / part).exists()\<close>.
\<close>

definition ends_with_py :: "string \<Rightarrow> bool" where
  "ends_with_py s = suffix ''.py'' s"

definition find_generating_script :: "(string \<Rightarrow> bool) \<Rightarrow> pipeline_step \<Rightarrow> string option" where
  "find_generating_script file_exists step =
     (case find (\<lambda>part. ends_with_py part \<and> file_exists part) (py_split (ps_cmd step)) of
        Some part \<Rightarrow> Some part
      | None \<Rightarrow> find ends_with_py (ps_inputs step))"

subsection \<open>\<^verbatim>\<open>_match_artifact_to_step\<close>\<close>

text \<open>
  The inner loop over one step's output patterns: \<open>Inr True\<close> at the first pattern that
  matches, \<open>Inr False\<close> when the patterns are exhausted, the error when a pattern met
  before does not compile.
\<close>

fun outputs_match :: "(string \<Rightarrow> string \<Rightarrow> bool option) \<Rightarrow> string list \<Rightarrow> string \<Rightarrow> error + bool" where
  "outputs_match re_match [] candidate = Inr False"
| "outputs_match re_match (output_pattern # ps) candidate =
     (case re_match (glob_to_regex output_pattern) candidate of
        None \<Rightarrow> Inl ReError
      | Some True \<Rightarrow> Inr True
      | Some False \<Rightarrow> outputs_match re_match ps candidate)"

fun match_in_steps ::
  "(string \<Rightarrow> string \<Rightarrow> bool option) \<Rightarrow> (string \<Rightarrow> bool) \<Rightarrow> (string \<times> pipeline_step) list \<Rightarrow> string
     \<Rightarrow> error + artifact_metadata option" where
  "match_in_steps re_match file_exists [] artifact_path = Inr None"
| "match_in_steps re_match file_exists ((step_name, step) # items) artifact_path =
     (case outputs_match re_match (ps_outputs step) artifact_path of
        Inl err \<Rightarrow> Inl err
      | Inr True \<Rightarrow>
          Inr (Some \<lparr> am_path = artifact_path,
                      am_step_name = step_name,
                      am_script_path = find_generating_script file_exists step,
                      am_line_number = None,
                      am_dependencies = ps_inputs step \<rparr>)
      | Inr False \<Rightarrow> match_in_steps re_match file_exists items artifact_path)"

definition match_artifact_to_step ::
  "(string \<Rightarrow> string \<Rightarrow> bool option) \<Rightarrow> (string \<Rightarrow> bool) \<Rightarrow> metadata_processor \<Rightarrow> string
     \<Rightarrow> error + artifact_metadata option" where
  "match_artifact_to_step re_match file_exists self artifact_path =
     match_in_steps re_match file_exists (mp_pipeline_steps self) artifact_path"

subsection \<open>\<^verbatim>\<open>_find_metadata_for_artifact\<close>\<close>

text \<open>The dictionary with the keys \<^verbatim>\<open>step\<close>, \<^verbatim>\<open>script\<close> and \<^verbatim>\<open>dependencies\<close>.\<close>

record artifact_info =
  ai_step :: "string option"
  ai_script :: string
  ai_dependencies :: "string list"

fun find_metadata_in ::
  "(string \<Rightarrow> string \<Rightarrow> bool option) \<Rightarrow> step_config list \<Rightarrow> string \<Rightarrow> error + artifact_info option" where
  "find_metadata_in re_match [] name = Inr None"
| "find_metadata_in re_match (step # steps) name =
     (case outputs_match re_match (sc_outputs step) name of
        Inl err \<Rightarrow> Inl err
      | Inr True \<Rightarrow>
          (case last_item (py_split (get_cmd step)) of
             Inl err \<Rightarrow> Inl err
           | Inr script \<Rightarrow>
               Inr (Some \<lparr> ai_step = sc_name step, ai_script = script,
                           ai_dependencies = sc_inputs step \<rparr>))
      | Inr False \<Rightarrow> find_metadata_in re_match steps name)"

text \<open>The parameter \<^verbatim>\<open>artifact_type\<close> is not read by the source.\<close>

definition find_metadata_for_artifact ::
  "(string \<Rightarrow> string \<Rightarrow> bool option) \<Rightarrow> metadata_processor \<Rightarrow> string \<Rightarrow> string
     \<Rightarrow> error + artifact_info option" where
  "find_metadata_for_artifact re_match self name artifact_type =
     find_metadata_in re_match (pipeline (mp_config self)) name"

subsection \<open>The two markers of \<^verbatim>\<open>discover_artifacts_in_latex\<close>\<close>

text \<open>
  The patterns are \<^verbatim>\<open>\\csfvaluelink\{([^}]+)\}\<close> and \<^verbatim>\<open>\\csflink\{([^}]+)\}\<close>: a fixed
  prefix, one or more characters other than \<^verbatim>\<open>}\<close>, and \<^verbatim>\<open>}\<close>. The greedy \<^verbatim>\<open>[^}]+\<close> takes
  the whole run of characters other than \<^verbatim>\<open>}\<close>; giving some back cannot help, since the
  next character would again not be \<^verbatim>\<open>}\<close>. So the pattern matches at a position exactly when
  the prefix stands there, the run after it is not empty and a \<^verbatim>\<open>}\<close> ends it.
\<close>

definition value_prefix :: string where
  "value_prefix = bslash # ''csfvaluelink{''"

definition artifact_prefix :: string where
  "artifact_prefix = bslash # ''csflink{''"

text \<open>A match object: \<^verbatim>\<open>start()\<close>, \<^verbatim>\<open>end()\<close> and \<^verbatim>\<open>group(1)\<close>.\<close>

record re_span =
  sp_start :: nat
  sp_end :: nat
  sp_group1 :: string

definition marker_at :: "string \<Rightarrow> string \<Rightarrow> string option" where
  "marker_at pfx s =
     (if prefix pfx s
      then (let body = drop (length pfx) s;
                name = takeWhile (\<lambda>c. c \<noteq> CHR ''}'') body
            in if name \<noteq> [] \<and> prefix ''}'' (drop (length name) body) then Some name else None)
      else None)"

text \<open>
  \<^verbatim>\<open>re.finditer\<close> for such a pattern on the text from offset \<open>pos\<close> on: the leftmost match,
  then the search goes on where that match ended.
\<close>

function marker_finditer :: "string \<Rightarrow> nat \<Rightarrow> string \<Rightarrow> re_span list" where
  "marker_finditer pfx pos [] = []"
| "marker_finditer pfx pos (c # cs) =
     (case marker_at pfx (c # cs) of
        None \<Rightarrow> marker_finditer pfx (Suc pos) cs
      | Some name \<Rightarrow>
          \<lparr> sp_start = pos, sp_end = pos + (length pfx + length name + 1), sp_group1 = name \<rparr>
            # marker_finditer pfx (pos + (length pfx + length name + 1))
                (drop (length pfx + length name) cs))"
  by pat_completeness auto
termination
  by (relation "measure (\<lambda>(pfx, pos, s). length s)") auto

subsection \<open>\<^verbatim>\<open>discover_artifacts_in_latex\<close>\<close>

record discovered_artifact =
  da_type :: string
  da_name :: string
  da_match_start :: nat
  da_match_end :: nat
  da_metadata :: artifact_info

definition no_metadata_warning :: "string \<Rightarrow> string \<Rightarrow> string" where
  "no_metadata_warning artifact_type name =
     ''Warning: No metadata found in composable.toml for '' @ artifact_type @ '' ''
       @ [CHR 0x27] @ name @ [CHR 0x27]"

text \<open>
  The inner loop over the matches of one pattern. The state is the list \<^verbatim>\<open>artifacts\<close> and
  the lines printed so far.
\<close>

fun discover_matches ::
  "(string \<Rightarrow> string \<Rightarrow> bool option) \<Rightarrow> metadata_processor \<Rightarrow> string \<Rightarrow> re_span list
     \<Rightarrow> discovered_artifact list \<times> string list
     \<Rightarrow> error + (discovered_artifact list \<times> string list)" where
  "discover_matches re_match self artifact_type [] acc = Inr acc"
| "discover_matches re_match self artifact_type (m # ms) acc =
     (case find_metadata_for_artifact re_match self (sp_group1 m) artifact_type of
        Inl err \<Rightarrow> Inl err
      | Inr (Some metadata) \<Rightarrow>
          discover_matches re_match self artifact_type ms
            (fst acc @ [\<lparr> da_type = artifact_type,
                           da_name = sp_group1 m,
                           da_match_start = sp_start m,
                           da_match_end = sp_end m,
                           da_metadata = metadata \<rparr>], snd acc)
      | Inr None \<Rightarrow>
          discover_matches re_match self artifact_type ms
            (fst acc, snd acc @ [no_metadata_warning artifact_type (sp_group1 m)]))"

text \<open>
  \<open>latex\<close> is the content of the document, \<open>None\<close> when the file does not exist. The
  dictionary \<^verbatim>\<open>patterns\<close> is iterated in the order it is written: \<^verbatim>\<open>value\<close>, then
  \<^verbatim>\<open>artifact\<close>. The result is the list of artifacts together with the printed lines.
\<close>

definition discover_artifacts_in_latex ::
  "(string \<Rightarrow> string \<Rightarrow> bool option) \<Rightarrow> metadata_processor \<Rightarrow> string option
     \<Rightarrow> error + (discovered_artifact list \<times> string list)" where
  "discover_artifacts_in_latex re_match self latex =
     (case latex of
        None \<Rightarrow> Inl FileNotFoundError
      | Some content \<Rightarrow>
          (case discover_matches re_match self ''value''
                  (marker_finditer value_prefix 0 content) ([], []) of
             Inl err \<Rightarrow> Inl err
           | Inr acc \<Rightarrow>
               discover_matches re_match self ''artifact''
                 (marker_finditer artifact_prefix 0 content) acc))"

subsection \<open>\<^verbatim>\<open>_discover_statistical_artifacts\<close>\<close>

















section \<open>Vocabulary of the statements\<close>

text \<open>
  The lines of a text, cut at every line feed (\<^verbatim>\<open>text.split("\n")\<close>); used to speak about
  the lines of the generated table.
\<close>

fun lines_from :: "string \<Rightarrow> string \<Rightarrow> string list" where
  "lines_from cur [] = [cur]"
| "lines_from cur (c # cs) =
     (if c = newline then cur # lines_from [] cs else lines_from (cur @ [c]) cs)"

definition lines_of :: "string \<Rightarrow> string list" where
  "lines_of s = lines_from [] s"

text \<open>The elements of a list in the order of their first occurrence.\<close>

definition first_occurrences :: "'a list \<Rightarrow> 'a list" where
  "first_occurrences xs = rev (remdups (rev xs))"

text \<open>The names of the \<^verbatim>\<open>value\<close> records of a log, in log order.\<close>

definition value_names :: "'v log_entry list \<Rightarrow> string list" where
  "value_names entries =
     concat (map (\<lambda>e. if le_type e = Some ''value''
                       then (case le_name e of None \<Rightarrow> [] | Some n \<Rightarrow> [n]) else [])
              entries)"

text \<open>
  Some output pattern of a step matches the candidate; every output pattern of a step
  compiles.
\<close>

definition step_matches :: "(string \<Rightarrow> string \<Rightarrow> bool option) \<Rightarrow> string list \<Rightarrow> string \<Rightarrow> bool" where
  "step_matches re_match outputs candidate =
     list_ex (\<lambda>p. re_match (glob_to_regex p) candidate = Some True) outputs"

definition patterns_compile :: "(string \<Rightarrow> string \<Rightarrow> bool option) \<Rightarrow> string list \<Rightarrow> string \<Rightarrow> bool" where
  "patterns_compile re_match outputs candidate =
     list_all (\<lambda>p. re_match (glob_to_regex p) candidate \<noteq> None) outputs"

text \<open>The \<^verbatim>\<open>PipelineStep\<close> that \<^verbatim>\<open>_load_config\<close> builds from a step that has a name and a command.\<close>

definition to_pipeline_step :: "step_config \<Rightarrow> pipeline_step" where
  "to_pipeline_step sc =
     \<lparr> ps_name = the (sc_name sc), ps_cmd = the (sc_cmd sc), ps_inputs = sc_inputs sc,
       ps_outputs = sc_outputs sc, ps_flake = sc_flake sc \<rparr>"

text \<open>
  What the loop over the matches of one marker pattern appends: an artifact for each match
  whose name has metadata, a warning line for each match whose name has none.
\<close>

definition found_artifacts ::
  "(string \<Rightarrow> string \<Rightarrow> bool option) \<Rightarrow> metadata_processor \<Rightarrow> string \<Rightarrow> re_span list
     \<Rightarrow> discovered_artifact list" where
  "found_artifacts re_match self artifact_type ms =
     concat (map (\<lambda>m. case find_metadata_for_artifact re_match self (sp_group1 m) artifact_type of
                         Inr (Some metadata) \<Rightarrow>
                           [\<lparr> da_type = artifact_type, da_name = sp_group1 m,
                              da_match_start = sp_start m, da_match_end = sp_end m,
                              da_metadata = metadata \<rparr>]
                       | _ \<Rightarrow> []) ms)"

definition missing_warnings ::
  "(string \<Rightarrow> string \<Rightarrow> bool option) \<Rightarrow> metadata_processor \<Rightarrow> string \<Rightarrow> re_span list
     \<Rightarrow> string list" where
  "missing_warnings re_match self artifact_type ms =
     concat (map (\<lambda>m. case find_metadata_for_artifact re_match self (sp_group1 m) artifact_type of
                         Inr None \<Rightarrow> [no_metadata_warning artifact_type (sp_group1 m)]
                       | _ \<Rightarrow> []) ms)"


text \<open>
  A glob pattern is plain when each of its characters is \<^verbatim>\<open>*\<close>, \<^verbatim>\<open>?\<close> or a character that
  the regular expression reads literally. \<open>glob_item\<close> is what the compiled pattern holds
  for one character of a plain glob.
\<close>

definition glob_char_plain :: "char \<Rightarrow> bool" where
  "glob_char_plain c = (c = CHR ''*'' \<or> c = CHR ''?'' \<or> (\<not> rx_meta c \<and> c \<noteq> CHR ''.''))"

definition glob_item :: "char \<Rightarrow> rx_item" where
  "glob_item c =
     (if c = CHR ''*'' then Many AnyChar else if c = CHR ''?'' then Once AnyChar else Once (Lit c))"

section \<open>An example project\<close>

text \<open>
  Three steps, of which the last two have output patterns that overlap on \<^verbatim>\<open>fig_1.png\<close> and
  commands that both mention \<^verbatim>\<open>analyze.py\<close>, and a log that writes \<^verbatim>\<open>acc\<close> twice. Values are the reals the JSON
  numbers denote; \<open>py_str_example\<close> is \<^verbatim>\<open>str\<close> on the values that occur.
\<close>

definition py_str_example :: "real \<Rightarrow> string" where
  "py_str_example v =
     (if v = 0.8 then ''0.8'' else if v = 0.94 then ''0.94'' else if v = 0.943 then ''0.943''
      else if v = 0.5 then ''0.5'' else [])"

definition step_prepare :: step_config where
  "step_prepare =
     \<lparr> sc_name = Some ''prepare'', sc_cmd = Some ''python prepare.py'',
       sc_inputs = [''raw.csv''], sc_outputs = [''data/*.csv''],
       sc_flake = None \<rparr>"

definition step_analyze :: step_config where
  "step_analyze =
     \<lparr> sc_name = Some ''analyze'', sc_cmd = Some ''python analyze.py'',
       sc_inputs = [''data.csv''], sc_outputs = [''results/acc.json'', ''fig_*.png''],
       sc_flake = None \<rparr>"

definition step_plot :: step_config where
  "step_plot =
     \<lparr> sc_name = Some ''plot'', sc_cmd = Some ''python plot.py --from analyze.py'',
       sc_inputs = [''plot.py''], sc_outputs = [''fig_1.png''],
       sc_flake = None \<rparr>"

definition example_config :: config where
  "example_config = \<lparr> pipeline = [step_prepare, step_analyze, step_plot] \<rparr>"

definition value_entry :: "string \<Rightarrow> real \<Rightarrow> string \<Rightarrow> int \<Rightarrow> real log_entry" where
  "value_entry name v filepath lineno =
     \<lparr> le_type = Some ''value'', le_name = Some name, le_value = Some v,
       le_filepath = Some filepath, le_lineno = Some lineno \<rparr>"

definition artifact_entry :: "real log_entry" where
  "artifact_entry =
     \<lparr> le_type = Some ''artifact'', le_name = Some ''acc'', le_value = None,
       le_filepath = Some ''analyze.py'', le_lineno = None \<rparr>"

definition entry_without_lineno :: "real log_entry" where
  "entry_without_lineno =
     \<lparr> le_type = Some ''value'', le_name = Some ''acc'', le_value = Some 0.94,
       le_filepath = Some ''analyze.py'', le_lineno = None \<rparr>"

definition example_log :: "real log_entry list" where
  "example_log =
     [value_entry ''acc'' 0.80 ''analyze.py'' 40,
      value_entry ''loss'' 0.5 ''train.py'' 7,
      value_entry ''acc'' 0.94 ''analyze.py'' 42,
      artifact_entry]"

definition log_line_1 :: string where
  \<open>log_line_1 = ''{"type": "value", "name": "acc", "value": 0.80, "filepath": "analyze.py", "lineno": 40}''\<close>

definition log_line_2 :: string where
  \<open>log_line_2 = ''{"type": "value", "name": "loss", "value": 0.5, "filepath": "train.py", "lineno": 7}''\<close>

definition log_line_3 :: string where
  \<open>log_line_3 = ''{"type": "value", "name": "acc", "value": 0.94, "filepath": "analyze.py", "lineno": 42}''\<close>

definition log_line_4 :: string where
  \<open>log_line_4 = ''{"type": "artifact", "name": "acc", "filepath": "analyze.py"}''\<close>

definition log_line_5 :: string where
  \<open>log_line_5 = ''{"type": "value", "name": "acc", "value": 0.94, "filepath": "analyze.py"}''\<close>

text \<open>\<^verbatim>\<open>json.loads\<close> on these five lines.\<close>

definition json_loads_example :: "string \<Rightarrow> real log_entry option" where
  "json_loads_example l =
     (if l = log_line_1 then Some (value_entry ''acc'' 0.80 ''analyze.py'' 40)
      else if l = log_line_2 then Some (value_entry ''loss'' 0.5 ''train.py'' 7)
      else if l = log_line_3 then Some (value_entry ''acc'' 0.94 ''analyze.py'' 42)
      else if l = log_line_4 then Some artifact_entry
      else if l = log_line_5 then Some entry_without_lineno
      else None)"

definition example_files :: csf_files where
  "example_files =
     \<lparr> provenance_log = Some [log_line_1, log_line_2, log_line_3, log_line_4],
       values_tex = None \<rparr>"

definition fresh_extractor :: "real value_extractor" where
  "fresh_extractor = \<lparr> ve_config = example_config, ve_values = [] \<rparr>"

definition extracted_example :: "real value_extractor" where
  "extracted_example =
     \<lparr> ve_config = example_config,
       ve_values =
         [(''acc'', \<lparr> ev_name = ''acc'', ev_value = 0.94, ev_formatted_value = ''0.94'',
                     ev_step = ''analyze'', ev_script = Some ''analyze.py'',
                     ev_value_type = ''unknown'', ev_line = Some 42 \<rparr>),
          (''loss'', \<lparr> ev_name = ''loss'', ev_value = 0.5, ev_formatted_value = ''0.5'',
                     ev_step = ''unknown'', ev_script = Some ''train.py'',
                     ev_value_type = ''unknown'', ev_line = Some 7 \<rparr>)] \<rparr>"

definition files_after_example :: csf_files where
  "files_after_example =
     example_files\<lparr>values_tex := Some (generate_values_tex py_str_example extracted_example)\<rparr>"

text \<open>The processor that \<^verbatim>\<open>_load_config\<close> builds from the example manifest.\<close>

definition example_processor :: metadata_processor where
  "example_processor =
     \<lparr> mp_pipeline_steps =
         [(''prepare'', \<lparr> ps_name = ''prepare'', ps_cmd = ''python prepare.py'',
                          ps_inputs = [''raw.csv''], ps_outputs = [''data/*.csv''],
                          ps_flake = None \<rparr>),
          (''analyze'', \<lparr> ps_name = ''analyze'', ps_cmd = ''python analyze.py'',
                          ps_inputs = [''data.csv''],
                          ps_outputs = [''results/acc.json'', ''fig_*.png''],
                          ps_flake = None \<rparr>),
          (''plot'', \<lparr> ps_name = ''plot'', ps_cmd = ''python plot.py --from analyze.py'',
                       ps_inputs = [''plot.py''], ps_outputs = [''fig_1.png''],
                       ps_flake = None \<rparr>)],
       mp_config = example_config \<rparr>"

text \<open>The scripts that exist under the project root.\<close>

definition project_files :: "string \<Rightarrow> bool" where
  "project_files part = (part \<in> set [''prepare.py'', ''analyze.py'', ''plot.py''])"

text \<open>A manifest of one step with the single output pattern \<^verbatim>\<open>fig_*.png\<close>.\<close>

definition glob_config :: config where
  "glob_config =
     \<lparr> pipeline =
         [\<lparr> sc_name = Some ''plot'', sc_cmd = Some ''python plot.py'',
            sc_inputs = [], sc_outputs = [''fig_*.png''], sc_flake = None \<rparr>] \<rparr>"

definition glob_processor :: metadata_processor where
  "glob_processor =
     \<lparr> mp_pipeline_steps =
         [(''plot'', \<lparr> ps_name = ''plot'', ps_cmd = ''python plot.py'',
                       ps_inputs = [], ps_outputs = [''fig_*.png''], ps_flake = None \<rparr>)],
       mp_config = glob_config \<rparr>"

text \<open>
  Three documents: one with the markers as the specification spells them, one with an
  artifact marker before a value marker, one with a marker no step declares.
\<close>

definition doc_spec_markers :: string where
  "doc_spec_markers = bslash # ''valuelink{fig_1.png} '' @ bslash # ''link{fig_1.png}''"

definition doc_two_markers :: string where
  "doc_two_markers = artifact_prefix @ ''fig_1.png} and '' @ value_prefix @ ''results/acc.json}''"

definition doc_unmatched :: string where
  "doc_unmatched = ''See '' @ value_prefix @ ''missing}.''"

text \<open>Two more documents: a matched and an unmatched marker; markers after other commands.\<close>

definition doc_mixed :: string where
  "doc_mixed = ''Accuracy '' @ value_prefix @ ''results/acc.json} of '' @ value_prefix @ ''missing}.''"

definition doc_latex :: string where
  "doc_latex = bslash # ''section{Results} See '' @ artifact_prefix @ ''fig_1.png} and ''
                 @ value_prefix @ ''results/acc.json}.''"

text \<open>The artifacts Python finds in \<open>doc_two_markers\<close> and in \<open>doc_mixed\<close>.\<close>

definition two_markers_result :: "discovered_artifact list" where
  "two_markers_result =
     [\<lparr> da_type = ''value'', da_name = ''results/acc.json'', da_match_start = 24,
        da_match_end = 55,
        da_metadata = \<lparr> ai_step = Some ''analyze'', ai_script = ''analyze.py'',
                        ai_dependencies = [''data.csv''] \<rparr> \<rparr>,
      \<lparr> da_type = ''artifact'', da_name = ''fig_1.png'', da_match_start = 0,
        da_match_end = 19,
        da_metadata = \<lparr> ai_step = Some ''analyze'', ai_script = ''analyze.py'',
                        ai_dependencies = [''data.csv''] \<rparr> \<rparr>]"

definition mixed_result :: "discovered_artifact list" where
  "mixed_result =
     [\<lparr> da_type = ''value'', da_name = ''results/acc.json'', da_match_start = 9,
        da_match_end = 40,
        da_metadata = \<lparr> ai_step = Some ''analyze'', ai_script = ''analyze.py'',
                        ai_dependencies = [''data.csv''] \<rparr> \<rparr>]"





text \<open>A manifest in which two steps share the name \<^verbatim>\<open>first\<close>, and the processor loaded from it.\<close>

definition dup_config :: config where
  "dup_config =
     \<lparr> pipeline =
         [\<lparr> sc_name = Some ''first'', sc_cmd = Some ''python a.py'', sc_inputs = [],
            sc_outputs = [''x*''], sc_flake = None \<rparr>,
          \<lparr> sc_name = Some ''second'', sc_cmd = Some ''python b.py'', sc_inputs = [],
            sc_outputs = [''y*''], sc_flake = None \<rparr>,
          \<lparr> sc_name = Some ''first'', sc_cmd = Some ''python c.py'', sc_inputs = [],
            sc_outputs = [''y*''], sc_flake = None \<rparr>] \<rparr>"

definition dup_processor :: metadata_processor where
  "dup_processor =
     \<lparr> mp_pipeline_steps =
         [(''first'', \<lparr> ps_name = ''first'', ps_cmd = ''python c.py'', ps_inputs = [],
                        ps_outputs = [''y*''], ps_flake = None \<rparr>),
          (''second'', \<lparr> ps_name = ''second'', ps_cmd = ''python b.py'', ps_inputs = [],
                         ps_outputs = [''y*''], ps_flake = None \<rparr>)],
       mp_config = dup_config \<rparr>"

section \<open>Facts about the shared helpers\<close>

lemma map_of_dict_set: "map_of (dict_set k v d) = (map_of d)(k \<mapsto> v)"
  by (induction d) (auto simp: fun_eq_iff)

lemma keys_dict_set:
  "map fst (dict_set k v d) = (if k \<in> fst ` set d then map fst d else map fst d @ [k])"
  by (induction d) force+

lemma set_dict_set: "set (dict_set k v d) \<subseteq> insert (k, v) (set d)"
  by (induction d) (auto split: if_splits)

lemma lines_from_no_newline:
  "newline \<notin> set l \<Longrightarrow> lines_from cur (l @ rest) = lines_from (cur @ l) rest"
  by (induction l arbitrary: cur) auto

lemma lines_of_join_lines:
  "ls \<noteq> [] \<Longrightarrow> \<forall>l \<in> set ls. newline \<notin> set l \<Longrightarrow> lines_of (join_lines ls) = ls"
proof (induction ls rule: join_lines.induct)
  case 1
  then show ?case by simp
next
  case (2 l)
  then show ?case
    using lines_from_no_newline [of l "[]" "[]"] by (simp add: lines_of_def)
next
  case (3 l l' ls)
  then show ?case
    using lines_from_no_newline [of l "[]" "newline # join_lines (l' # ls)"]
    by (simp add: lines_of_def)
qed

lemma digit_char_not_newline: "d < 10 \<Longrightarrow> digit_char d \<noteq> newline"
proof -
  assume "d < 10"
  then have "d \<in> {0, 1, 2, 3, 4, 5, 6, 7, 8, 9}" by auto
  then show ?thesis by (auto simp: digit_char_def)
qed

lemma str_nat_no_newline: "newline \<notin> set (str_nat n)"
proof (induction n rule: str_nat.induct)
  case (1 n)
  show ?case
  proof (cases "n < 10")
    case True
    then show ?thesis
      using digit_char_not_newline [of n] by (auto simp: str_nat.simps [of n])
  next
    case False
    then show ?thesis
      using 1 digit_char_not_newline [of "n mod 10"] by (auto simp: str_nat.simps [of n])
  qed
qed

lemma first_occurrences_snoc:
  "first_occurrences (xs @ [x]) =
     (if x \<in> set xs then first_occurrences xs else first_occurrences xs @ [x])"
  by (simp add: first_occurrences_def)

lemma set_first_occurrences: "set (first_occurrences xs) = set xs"
  by (simp add: first_occurrences_def)

lemmas example_defs = py_str_example_def step_prepare_def step_analyze_def step_plot_def
  example_config_def
  value_entry_def artifact_entry_def entry_without_lineno_def example_log_def
  json_loads_example_def example_files_def fresh_extractor_def extracted_example_def
  files_after_example_def log_line_1_def log_line_2_def log_line_3_def log_line_4_def
  log_line_5_def

section \<open>The value log\<close>

lemmas run_defs = process_document_def extract_values_from_log_def read_provenance_log_def
  create_csf_values_file_def reduce_entry_def find_step_for_script_def get_cmd_def
  step_or_unknown_def default_value_type_def

lemma reduce_entry_skip:
  "le_type e \<noteq> Some ''value'' \<Longrightarrow> reduce_entry py_str cfg vals e = Inr vals"
  by (simp add: reduce_entry_def)

lemma reduce_entries_append:
  "reduce_entries py_str cfg vals (xs @ ys) =
     (case reduce_entries py_str cfg vals xs of
        Inl err \<Rightarrow> Inl err
      | Inr vals' \<Rightarrow> reduce_entries py_str cfg vals' ys)"
  by (induction xs arbitrary: vals) (auto split: sum.splits)

lemma reduce_entries_filter:
  "reduce_entries py_str cfg vals entries =
     reduce_entries py_str cfg vals (filter (\<lambda>e. le_type e = Some ''value'') entries)"
  by (induction entries arbitrary: vals) (auto simp: reduce_entry_skip split: sum.splits)

lemma reduce_entry_other_name:
  assumes "reduce_entry py_str cfg vals e = Inr vals'"
    and "le_type e = Some ''value'' \<longrightarrow> le_name e \<noteq> Some n"
  shows "map_of vals' n = map_of vals n"
  using assms
  by (auto simp: reduce_entry_def map_of_dict_set split: if_splits option.splits)

lemma reduce_entries_other_names:
  assumes "reduce_entries py_str cfg vals entries = Inr vals'"
    and "\<forall>e \<in> set entries. le_type e = Some ''value'' \<longrightarrow> le_name e \<noteq> Some n"
  shows "map_of vals' n = map_of vals n"
  using assms
proof (induction entries arbitrary: vals)
  case Nil
  then show ?case by simp
next
  case (Cons e es)
  from Cons.prems(1) obtain mid where
    mid: "reduce_entry py_str cfg vals e = Inr mid"
    and rest: "reduce_entries py_str cfg mid es = Inr vals'"
    by (auto split: sum.splits)
  have "map_of mid n = map_of vals n"
    using mid Cons.prems(2) by (intro reduce_entry_other_name) auto
  moreover have "map_of vals' n = map_of mid n"
    using rest Cons.prems(2) by (intro Cons.IH) auto
  ultimately show ?case by simp
qed

lemma reduce_entry_value:
  assumes "reduce_entry py_str cfg vals e = Inr vals'"
    and "le_type e = Some ''value''" and "le_name e = Some n"
  shows "\<exists>ev. map_of vals' n = Some ev \<and> ev_name ev = n \<and> le_value e = Some (ev_value ev)
            \<and> le_filepath e = ev_script ev \<and> le_lineno e = ev_line ev"
  using assms
  by (auto simp: reduce_entry_def map_of_dict_set split: if_splits option.splits)

text \<open>
  C2. Reduction skips every record whose \<^verbatim>\<open>type\<close> is not \<^verbatim>\<open>"value"\<close>: reducing the log
  and reducing its \<^verbatim>\<open>value\<close> records alone give the same result. Records are taken in log
  order and the last record of a name wins: when \<open>e\<close> is a \<^verbatim>\<open>value\<close> record named \<open>n\<close> and no
  later \<^verbatim>\<open>value\<close> record carries that name, the reduced entry of \<open>n\<close> holds the value, the
  script path and the line number of \<open>e\<close>.
\<close>

theorem last_record_wins:
  assumes "reduce_entries py_str cfg [] (pre @ e # post) = Inr vals"
    and "le_type e = Some ''value''" and "le_name e = Some n"
    and "\<forall>e' \<in> set post. le_type e' = Some ''value'' \<longrightarrow> le_name e' \<noteq> Some n"
  shows "(\<exists>ev. map_of vals n = Some ev \<and> ev_name ev = n \<and> le_value e = Some (ev_value ev)
            \<and> le_filepath e = ev_script ev \<and> le_lineno e = ev_line ev)
       \<and> reduce_entries py_str cfg [] (filter (\<lambda>e. le_type e = Some ''value'') (pre @ e # post))
           = Inr vals"
proof -
  from assms(1) obtain v1 v2 where
    v1: "reduce_entries py_str cfg [] pre = Inr v1"
    and v2: "reduce_entry py_str cfg v1 e = Inr v2"
    and v3: "reduce_entries py_str cfg v2 post = Inr vals"
    by (auto simp: reduce_entries_append split: sum.splits)
  have "map_of vals n = map_of v2 n"
    using v3 assms(4) by (rule reduce_entries_other_names)
  moreover from reduce_entry_value [OF v2 assms(2,3)] obtain ev where
    "map_of v2 n = Some ev" "ev_name ev = n" "le_value e = Some (ev_value ev)"
    "le_filepath e = ev_script ev" "le_lineno e = ev_line ev"
    by blast
  ultimately have "\<exists>ev. map_of vals n = Some ev \<and> ev_name ev = n \<and> le_value e = Some (ev_value ev)
            \<and> le_filepath e = ev_script ev \<and> le_lineno e = ev_line ev"
    by auto
  moreover have "reduce_entries py_str cfg [] (filter (\<lambda>e. le_type e = Some ''value'') (pre @ e # post))
           = Inr vals"
    using assms(1) reduce_entries_filter [of py_str cfg "[]" "pre @ e # post"] by simp
  ultimately show ?thesis by blast
qed

text \<open>
  The log of the example writes \<^verbatim>\<open>acc\<close> as 0.80, then \<^verbatim>\<open>loss\<close>, then \<^verbatim>\<open>acc\<close> as 0.94, then
  a record of another type: the reduced value of \<^verbatim>\<open>acc\<close> is 0.94.
\<close>

theorem last_record_wins_witness:
  "reduce_entries py_str_example example_config [] example_log = Inr (ve_values extracted_example)
   \<and> (\<exists>ev. map_of (ve_values extracted_example) ''acc'' = Some ev \<and> ev_value ev = 0.94)"
proof -
  let ?e = "value_entry ''acc'' 0.94 ''analyze.py'' 42"
  have log: "example_log =
      [value_entry ''acc'' 0.80 ''analyze.py'' 40, value_entry ''loss'' 0.5 ''train.py'' 7]
        @ ?e # [artifact_entry]"
    by (simp add: example_log_def)
  have run: "reduce_entries py_str_example example_config []
      ([value_entry ''acc'' 0.80 ''analyze.py'' 40, value_entry ''loss'' 0.5 ''train.py'' 7]
        @ ?e # [artifact_entry]) = Inr (ve_values extracted_example)"
    by (simp add: example_defs run_defs)
  have t: "le_type ?e = Some ''value''" and n: "le_name ?e = Some ''acc''"
    by (simp_all add: value_entry_def)
  have later: "\<forall>e' \<in> set [artifact_entry]. le_type e' = Some ''value'' \<longrightarrow> le_name e' \<noteq> Some ''acc''"
    by (simp add: artifact_entry_def)
  from last_record_wins [OF run t n later] obtain ev where
    "map_of (ve_values extracted_example) ''acc'' = Some ev" "le_value ?e = Some (ev_value ev)"
    by blast
  then have found: "\<exists>ev. map_of (ve_values extracted_example) ''acc'' = Some ev \<and> ev_value ev = 0.94"
    by (auto simp: value_entry_def)
  have "reduce_entries py_str_example example_config [] example_log =
      Inr (ve_values extracted_example)"
    unfolding log by (rule run)
  then show ?thesis using found by (rule conjI)
qed

lemma reduce_entry_keys:
  assumes "reduce_entry py_str cfg vals e = Inr vals'"
  shows "map fst vals' =
     (if le_type e = Some ''value''
      then (case le_name e of None \<Rightarrow> map fst vals
            | Some n \<Rightarrow> if n \<in> set (map fst vals) then map fst vals else map fst vals @ [n])
      else map fst vals)"
  using assms
  by (force simp: reduce_entry_def keys_dict_set split: if_splits option.splits)

lemma value_names_snoc:
  "value_names (es @ [e]) =
     value_names es @ (if le_type e = Some ''value''
                       then (case le_name e of None \<Rightarrow> [] | Some n \<Rightarrow> [n]) else [])"
  by (simp add: value_names_def)

lemma reduce_entries_keys:
  "reduce_entries py_str cfg [] entries = Inr vals
     \<Longrightarrow> map fst vals = first_occurrences (value_names entries)"
proof (induction entries arbitrary: vals rule: rev_induct)
  case Nil
  then show ?case by (simp add: first_occurrences_def value_names_def)
next
  case (snoc e es)
  from snoc.prems obtain mid where
    mid: "reduce_entries py_str cfg [] es = Inr mid"
    and last: "reduce_entry py_str cfg mid e = Inr vals"
    by (auto simp: reduce_entries_append split: sum.splits)
  have keys: "map fst mid = first_occurrences (value_names es)"
    using mid by (rule snoc.IH)
  show ?case
    using reduce_entry_keys [OF last] keys set_first_occurrences [of "value_names es"]
    by (auto simp: value_names_snoc first_occurrences_snoc split: option.splits if_splits)
qed

lemma generate_lines:
  assumes "ve_values self \<noteq> []"
    and "\<forall>item \<in> set (ve_values self). newline \<notin> set (define_line py_str item)"
  shows "\<exists>h t. length h = 4 \<and> length t = 4
           \<and> lines_of (generate_values_tex py_str self) =
               h @ map (define_line py_str) (ve_values self) @ t"
proof -
  let ?h = "[''% CSF Values - Auto-generated by extract-values.py'',
          ''% Generated from '' @ str_nat (length (ve_values self)) @ '' statistical annotations'',
          ''% Do not edit manually - regenerate with '' @ [CHR 0x27] @ ''cstex-compile'' @ [CHR 0x27],
          '''']"
  let ?t = "['''', ''% Mark values as cached'', bslash # ''csfvaluescachedtrue'', '''']"
  let ?ls = "?h @ map (define_line py_str) (ve_values self) @ ?t"
  have "\<forall>l \<in> set ?ls. newline \<notin> set l"
    using assms(2) str_nat_no_newline [of "length (ve_values self)"] by auto
  then have "lines_of (join_lines ?ls) = ?ls"
    by (intro lines_of_join_lines) simp_all
  moreover have "generate_values_tex py_str self = join_lines ?ls"
    using assms(1) by (simp add: generate_values_tex_def)
  ultimately have "lines_of (generate_values_tex py_str self) = ?ls" by simp
  moreover have "length ?h = 4" "length ?t = 4" by simp_all
  ultimately show ?thesis by blast
qed

text \<open>
  C5. A run of \<^verbatim>\<open>process_document\<close> that succeeds writes \<^verbatim>\<open>generate_values_tex\<close> of the
  reduced values to \<^verbatim>\<open>.csf/values.tex\<close>. Running again on the files it left, from any
  extractor with the same manifest, reduces to the same values and leaves every file as it
  is: the table is byte-identical. The keys of the mapping are the names of the
  \<^verbatim>\<open>value\<close> records in the order of their first occurrence in the log. When no definition
  line contains a line feed, the table has the four header lines, then exactly one
  definition line per value in the order of the mapping, then the four closing lines.
\<close>

theorem injection_table_deterministic:
  assumes "process_document json_loads py_str self files = Inr (self', files')"
  shows "values_tex files' = Some (generate_values_tex py_str self')
       \<and> (\<forall>again. ve_config again = ve_config self \<longrightarrow>
             process_document json_loads py_str again files' =
               Inr (again\<lparr>ve_values := ve_values self'\<rparr>, files'))
       \<and> (\<forall>entries. read_provenance_log json_loads files = Inr entries \<longrightarrow>
             map fst (ve_values self') = first_occurrences (value_names entries))
       \<and> (ve_values self' \<noteq> [] \<and>
            (\<forall>item \<in> set (ve_values self'). newline \<notin> set (define_line py_str item)) \<longrightarrow>
             length (lines_of (generate_values_tex py_str self')) = length (ve_values self') + 8 \<and>
             take (length (ve_values self')) (drop 4 (lines_of (generate_values_tex py_str self')))
               = map (define_line py_str) (ve_values self'))"
proof -
  from assms obtain entries vs where
    rd: "read_provenance_log json_loads files = Inr entries"
    and red: "reduce_entries py_str (ve_config self) [] entries = Inr vs"
    and self': "self' = self\<lparr>ve_values := vs\<rparr>"
    and files': "files' = files\<lparr>values_tex := Some (generate_values_tex py_str self')\<rparr>"
    by (auto simp: process_document_def extract_values_from_log_def create_csf_values_file_def
        split: sum.splits)
  have one: "values_tex files' = Some (generate_values_tex py_str self')"
    using files' by simp
  have rd': "read_provenance_log json_loads files' = Inr entries"
    using rd files' by (simp add: read_provenance_log_def)
  have two: "\<forall>again. ve_config again = ve_config self \<longrightarrow>
             process_document json_loads py_str again files' =
               Inr (again\<lparr>ve_values := ve_values self'\<rparr>, files')"
  proof (intro allI impI)
    fix again :: "'a value_extractor"
    assume cfg: "ve_config again = ve_config self"
    have "generate_values_tex py_str (again\<lparr>ve_values := vs\<rparr>) = generate_values_tex py_str self'"
      using self' by (simp add: generate_values_tex_def)
    then show "process_document json_loads py_str again files' =
               Inr (again\<lparr>ve_values := ve_values self'\<rparr>, files')"
      using rd' red cfg self' files'
      by (simp add: process_document_def extract_values_from_log_def create_csf_values_file_def)
  qed
  have three: "\<forall>es. read_provenance_log json_loads files = Inr es \<longrightarrow>
             map fst (ve_values self') = first_occurrences (value_names es)"
    using rd reduce_entries_keys [OF red] self' by simp
  have four: "ve_values self' \<noteq> [] \<and>
            (\<forall>item \<in> set (ve_values self'). newline \<notin> set (define_line py_str item)) \<longrightarrow>
             length (lines_of (generate_values_tex py_str self')) = length (ve_values self') + 8 \<and>
             take (length (ve_values self')) (drop 4 (lines_of (generate_values_tex py_str self')))
               = map (define_line py_str) (ve_values self')"
  proof
    assume h: "ve_values self' \<noteq> [] \<and>
            (\<forall>item \<in> set (ve_values self'). newline \<notin> set (define_line py_str item))"
    then obtain h t where "length h = 4" "length t = 4"
      "lines_of (generate_values_tex py_str self') = h @ map (define_line py_str) (ve_values self') @ t"
      using generate_lines [of self' py_str] by blast
    then show "length (lines_of (generate_values_tex py_str self')) = length (ve_values self') + 8 \<and>
             take (length (ve_values self')) (drop 4 (lines_of (generate_values_tex py_str self')))
               = map (define_line py_str) (ve_values self')"
      by simp
  qed
  from one two three four show ?thesis by blast
qed

text \<open>
  The example log gives the mapping \<^verbatim>\<open>acc\<close>, \<^verbatim>\<open>loss\<close>; a second run on the files of the
  first changes nothing, and lines 5 and 6 of the table define \<^verbatim>\<open>acc\<close> and \<^verbatim>\<open>loss\<close>.
\<close>

theorem injection_table_deterministic_witness:
  "process_document json_loads_example py_str_example fresh_extractor example_files =
     Inr (extracted_example, files_after_example)
   \<and> process_document json_loads_example py_str_example fresh_extractor files_after_example =
     Inr (extracted_example, files_after_example)
   \<and> read_provenance_log json_loads_example example_files = Inr example_log
   \<and> map fst (ve_values extracted_example) = first_occurrences (value_names example_log)
   \<and> first_occurrences (value_names example_log) = [''acc'', ''loss'']
   \<and> take 2 (drop 4 (lines_of (generate_values_tex py_str_example extracted_example))) =
       [bslash # ''csfdefinevalue{acc}{0.94}{analyze}{unknown}'',
        bslash # ''csfdefinevalue{loss}{0.5}{unknown}{unknown}'']"
proof -
  have run: "process_document json_loads_example py_str_example fresh_extractor example_files =
     Inr (extracted_example, files_after_example)"
    by (simp add: run_defs example_defs)
  have cfg: "ve_config fresh_extractor = ve_config fresh_extractor" by simp
  have vals: "ve_values extracted_example \<noteq> [] \<and>
      (\<forall>item \<in> set (ve_values extracted_example). newline \<notin> set (define_line py_str_example item))"
    by (simp add: extracted_example_def define_line_def py_str_example_def)
  have again: "fresh_extractor\<lparr>ve_values := ve_values extracted_example\<rparr> = extracted_example"
    by (simp add: fresh_extractor_def extracted_example_def)
  have lines: "map (define_line py_str_example) (ve_values extracted_example) =
       [bslash # ''csfdefinevalue{acc}{0.94}{analyze}{unknown}'',
        bslash # ''csfdefinevalue{loss}{0.5}{unknown}{unknown}'']"
    by (simp add: extracted_example_def define_line_def py_str_example_def)
  have keys: "map fst (ve_values extracted_example) = [''acc'', ''loss'']"
    by (simp add: extracted_example_def)
  have len: "length (ve_values extracted_example) = 2"
    by (simp add: extracted_example_def)
  have rd: "read_provenance_log json_loads_example example_files = Inr example_log"
    by (simp add: read_provenance_log_def example_defs)
  have names: "first_occurrences (value_names example_log) = [''acc'', ''loss'']"
    by (simp add: first_occurrences_def value_names_def example_defs)
  note inst = injection_table_deterministic [OF run]
  from inst rd have order: "map fst (ve_values extracted_example) =
      first_occurrences (value_names example_log)"
    by blast
  from inst cfg again have rerun: "process_document json_loads_example py_str_example
      fresh_extractor files_after_example = Inr (extracted_example, files_after_example)"
    by force
  from inst vals have "take (length (ve_values extracted_example))
      (drop 4 (lines_of (generate_values_tex py_str_example extracted_example))) =
      map (define_line py_str_example) (ve_values extracted_example)"
    by blast
  with lines len have table: "take 2 (drop 4 (lines_of (generate_values_tex py_str_example
      extracted_example))) =
       [bslash # ''csfdefinevalue{acc}{0.94}{analyze}{unknown}'',
        bslash # ''csfdefinevalue{loss}{0.5}{unknown}{unknown}'']"
    by simp
  from run rerun rd order names table show ?thesis by blast
qed

lemma reduce_entry_value_type:
  assumes "reduce_entry py_str cfg vals e = Inr vals'"
    and "\<forall>item \<in> set vals. ev_value_type (snd item) = ''unknown''"
  shows "\<forall>item \<in> set vals'. ev_value_type (snd item) = ''unknown''"
proof (cases "le_type e = Some ''value''")
  case False
  then show ?thesis using assms by (simp add: reduce_entry_def)
next
  case True
  then obtain k v where "vals' = dict_set k v vals" "ev_value_type v = ''unknown''"
    using assms(1)
    by (auto simp: reduce_entry_def default_value_type_def split: option.splits)
  then show ?thesis
    using assms(2) set_dict_set [of k v vals] by auto
qed

lemma reduce_entries_value_type:
  assumes "reduce_entries py_str cfg vals entries = Inr vals'"
    and "\<forall>item \<in> set vals. ev_value_type (snd item) = ''unknown''"
  shows "\<forall>item \<in> set vals'. ev_value_type (snd item) = ''unknown''"
  using assms
proof (induction entries arbitrary: vals)
  case Nil
  then show ?case by simp
next
  case (Cons e es)
  from Cons.prems(1) obtain mid where
    mid: "reduce_entry py_str cfg vals e = Inr mid"
    and rest: "reduce_entries py_str cfg mid es = Inr vals'"
    by (auto split: sum.splits)
  show ?case
    using Cons.IH [OF rest] reduce_entry_value_type [OF mid Cons.prems(2)] by blast
qed

text \<open>
  C6, as the code has it. The reduction never passes \<^verbatim>\<open>value_type\<close> to \<^verbatim>\<open>ExtractedValue\<close>,
  and the dataclass default is \<^verbatim>\<open>"unknown"\<close>: every value produced by log reduction has
  the value type \<^verbatim>\<open>"unknown"\<close>, whatever its record holds.
\<close>

theorem log_value_type_is_unknown:
  assumes "reduce_entries py_str cfg [] entries = Inr vals"
  shows "\<forall>item \<in> set vals. ev_value_type (snd item) = ''unknown''"
  using reduce_entries_value_type [OF assms] by simp

theorem log_value_type_is_unknown_witness:
  "reduce_entries py_str_example example_config [] example_log = Inr (ve_values extracted_example)
   \<and> map (ev_value_type \<circ> snd) (ve_values extracted_example) = [''unknown'', ''unknown'']"
proof -
  have run: "reduce_entries py_str_example example_config [] example_log =
      Inr (ve_values extracted_example)"
    by (simp add: run_defs example_defs)
  have two: "length (ve_values extracted_example) = 2"
    by (simp add: extracted_example_def)
  from log_value_type_is_unknown [OF run]
  have "map (ev_value_type \<circ> snd) (ve_values extracted_example) =
      replicate (length (ve_values extracted_example)) ''unknown''"
    by (intro replicate_eqI) auto
  with two have "map (ev_value_type \<circ> snd) (ve_values extracted_example) = [''unknown'', ''unknown'']"
    by (simp add: numeral_2_eq_2)
  with run show ?thesis by (rule conjI)
qed

text \<open>
  C6 as stated fails: the record of the specification's own scenario declares no value
  type, and its reduced value has the value type \<^verbatim>\<open>"unknown"\<close>, not \<^verbatim>\<open>"value"\<close>.
\<close>

theorem value_type_default_counterexample:
  "reduce_entries py_str_example example_config []
       [value_entry ''accuracy'' 0.943 ''analyze.py'' 42] =
     Inr [(''accuracy'',
           \<lparr> ev_name = ''accuracy'', ev_value = 0.943, ev_formatted_value = ''0.943'',
             ev_step = ''analyze'', ev_script = Some ''analyze.py'',
             ev_value_type = ''unknown'', ev_line = Some 42 \<rparr>)]
   \<and> ''unknown'' \<noteq> ''value''"
  by (simp add: run_defs example_defs)

text \<open>
  C9. When \<^verbatim>\<open>.csf/provenance.log\<close> does not exist, reading it gives the empty list and does
  not fail, and the run writes the marker line \<^verbatim>\<open>% No values extracted\<close> to
  \<^verbatim>\<open>.csf/values.tex\<close> rather than nothing.
\<close>

theorem missing_log_gives_marker:
  assumes "provenance_log files = None"
  shows "read_provenance_log json_loads files = Inr []
       \<and> process_document json_loads py_str self files =
           Inr (self\<lparr>ve_values := []\<rparr>,
                files\<lparr>values_tex := Some (''% No values extracted'' @ [newline])\<rparr>)"
  using assms
  by (simp add: read_provenance_log_def process_document_def extract_values_from_log_def
      create_csf_values_file_def generate_values_tex_def no_values_marker_def)

theorem missing_log_gives_marker_witness:
  "provenance_log \<lparr> provenance_log = None, values_tex = None \<rparr> = None
   \<and> read_provenance_log json_loads_example \<lparr> provenance_log = None, values_tex = None \<rparr> = Inr []
   \<and> process_document json_loads_example py_str_example fresh_extractor
        \<lparr> provenance_log = None, values_tex = None \<rparr> =
       Inr (fresh_extractor,
            \<lparr> provenance_log = None, values_tex = Some (''% No values extracted'' @ [newline]) \<rparr>)"
proof -
  have h: "provenance_log \<lparr> provenance_log = None, values_tex = None \<rparr> = None" by simp
  from missing_log_gives_marker [OF h, of json_loads_example py_str_example fresh_extractor]
  show ?thesis by (simp add: fresh_extractor_def)
qed

lemma reduce_entry_missing_field:
  assumes "le_type e = Some ''value''"
    and "le_name e = None \<or> le_value e = None \<or> le_filepath e = None \<or> le_lineno e = None"
  shows "reduce_entry py_str cfg vals e =
           Inl (KeyError (if le_name e = None then ''name''
                          else if le_value e = None then ''value''
                          else if le_filepath e = None then ''filepath''
                          else ''lineno''))"
  using assms by (auto simp: reduce_entry_def split: option.splits)

lemma reduce_entries_member_raises:
  assumes "\<And>v. \<exists>err. reduce_entry py_str cfg v e = Inl err" and "e \<in> set entries"
  shows "\<exists>err. reduce_entries py_str cfg vals entries = Inl err"
  using assms(2)
proof (induction entries arbitrary: vals)
  case Nil
  then show ?case by simp
next
  case (Cons x xs)
  show ?case
  proof (cases "reduce_entry py_str cfg vals x")
    case (Inl err)
    then show ?thesis by simp
  next
    case (Inr mid)
    with assms(1) [of vals] have "x \<noteq> e" by auto
    with Cons.prems have "e \<in> set xs" by simp
    from Cons.IH [OF this, of mid] Inr show ?thesis by simp
  qed
qed

lemma load_lines_member:
  "load_lines json_loads ls = Inr es \<Longrightarrow> l \<in> set ls \<Longrightarrow> json_loads l = Some e \<Longrightarrow> e \<in> set es"
  by (induction ls arbitrary: es) (auto split: option.splits sum.splits)

text \<open>
  C10. A record of type \<^verbatim>\<open>"value"\<close> that lacks \<^verbatim>\<open>name\<close>, \<^verbatim>\<open>value\<close>, \<^verbatim>\<open>filepath\<close> or
  \<^verbatim>\<open>lineno\<close> makes the loop body raise \<^verbatim>\<open>KeyError\<close> for the first of these keys that is
  missing. The record is not skipped: when the records before it reduce without error the
  whole reduction ends in that \<^verbatim>\<open>KeyError\<close>, every log that contains the record makes the
  reduction raise, and so does \<^verbatim>\<open>extract_values_from_log\<close> on a log file with such a line.
\<close>

theorem missing_field_raises_key_error:
  assumes "le_type e = Some ''value''"
    and "le_name e = None \<or> le_value e = None \<or> le_filepath e = None \<or> le_lineno e = None"
  shows "reduce_entry py_str cfg vals e =
           Inl (KeyError (if le_name e = None then ''name''
                          else if le_value e = None then ''value''
                          else if le_filepath e = None then ''filepath''
                          else ''lineno''))
       \<and> (\<forall>pre post vs. reduce_entries py_str cfg [] pre = Inr vs \<longrightarrow>
             reduce_entries py_str cfg [] (pre @ e # post) = reduce_entry py_str cfg vs e)
       \<and> (\<forall>pre post. \<exists>err. reduce_entries py_str cfg [] (pre @ e # post) = Inl err)
       \<and> (\<forall>ls l. provenance_log files = Some ls \<and> l \<in> set ls \<and> json_loads l = Some e \<longrightarrow>
             (\<exists>err. extract_values_from_log json_loads py_str files self = Inl err))"
proof -
  have one: "\<And>c v. reduce_entry py_str c v e =
           Inl (KeyError (if le_name e = None then ''name''
                          else if le_value e = None then ''value''
                          else if le_filepath e = None then ''filepath''
                          else ''lineno''))"
    using assms by (rule reduce_entry_missing_field)
  then have always: "\<And>c v. \<exists>err. reduce_entry py_str c v e = Inl err"
    by blast
  have run: "\<And>c entries v. e \<in> set entries \<Longrightarrow> \<exists>err. reduce_entries py_str c v entries = Inl err"
    using always by (rule reduce_entries_member_raises)
  have a: "\<forall>pre post vs. reduce_entries py_str cfg [] pre = Inr vs \<longrightarrow>
             reduce_entries py_str cfg [] (pre @ e # post) = reduce_entry py_str cfg vs e"
    using one by (simp add: reduce_entries_append)
  have b: "\<forall>pre post. \<exists>err. reduce_entries py_str cfg [] (pre @ e # post) = Inl err"
    using run by simp
  have c: "\<forall>ls l. provenance_log files = Some ls \<and> l \<in> set ls \<and> json_loads l = Some e \<longrightarrow>
             (\<exists>err. extract_values_from_log json_loads py_str files self = Inl err)"
  proof (intro allI impI)
    fix ls l
    assume h: "provenance_log files = Some ls \<and> l \<in> set ls \<and> json_loads l = Some e"
    show "\<exists>err. extract_values_from_log json_loads py_str files self = Inl err"
    proof (cases "load_lines json_loads ls")
      case (Inl err)
      with h show ?thesis
        by (simp add: extract_values_from_log_def read_provenance_log_def)
    next
      case (Inr es)
      with h have "e \<in> set es" by (auto intro: load_lines_member)
      from run [OF this, of "ve_config self" "[]"] obtain err where
        "reduce_entries py_str (ve_config self) [] es = Inl err" ..
      with h Inr show ?thesis
        by (simp add: extract_values_from_log_def read_provenance_log_def)
    qed
  qed
  from one [of cfg vals] a b c show ?thesis by blast
qed

text \<open>
  A record of type \<^verbatim>\<open>"value"\<close> without \<^verbatim>\<open>lineno\<close>, after a complete record: the reduction
  and the extraction from the two-line log file both end in an error, the former in
  \<^verbatim>\<open>KeyError('lineno')\<close>.
\<close>

theorem missing_field_raises_key_error_witness:
  "le_type entry_without_lineno = Some ''value'' \<and> le_lineno entry_without_lineno = None
   \<and> reduce_entry py_str_example example_config [] entry_without_lineno = Inl (KeyError ''lineno'')
   \<and> reduce_entries py_str_example example_config []
        ([value_entry ''acc'' 0.80 ''analyze.py'' 40] @ entry_without_lineno # [artifact_entry]) =
       Inl (KeyError ''lineno'')
   \<and> (\<exists>err. extract_values_from_log json_loads_example py_str_example
         \<lparr> provenance_log = Some [log_line_1, log_line_5], values_tex = None \<rparr> fresh_extractor =
       Inl err)"
proof -
  have t: "le_type entry_without_lineno = Some ''value''"
    by (simp add: entry_without_lineno_def)
  have m: "le_name entry_without_lineno = None \<or> le_value entry_without_lineno = None
      \<or> le_filepath entry_without_lineno = None \<or> le_lineno entry_without_lineno = None"
    by (simp add: entry_without_lineno_def)
  have pre: "reduce_entries py_str_example example_config [] [value_entry ''acc'' 0.80 ''analyze.py'' 40]
      = Inr [(''acc'', \<lparr> ev_name = ''acc'', ev_value = 0.80, ev_formatted_value = ''0.8'',
                     ev_step = ''analyze'', ev_script = Some ''analyze.py'',
                     ev_value_type = ''unknown'', ev_line = Some 40 \<rparr>)]"
    by (simp add: run_defs example_defs)
  have fields: "le_name entry_without_lineno \<noteq> None \<and> le_value entry_without_lineno \<noteq> None
      \<and> le_filepath entry_without_lineno \<noteq> None \<and> le_lineno entry_without_lineno = None"
    by (simp add: entry_without_lineno_def)
  have line: "provenance_log \<lparr> provenance_log = Some [log_line_1, log_line_5], values_tex = None \<rparr>
        = Some [log_line_1, log_line_5]
      \<and> log_line_5 \<in> set [log_line_1, log_line_5]
      \<and> json_loads_example log_line_5 = Some entry_without_lineno"
    by (simp add: json_loads_example_def log_line_1_def log_line_2_def log_line_3_def
        log_line_4_def log_line_5_def)
  note inst = missing_field_raises_key_error [OF t m, of py_str_example example_config _
      "\<lparr> provenance_log = Some [log_line_1, log_line_5], values_tex = None \<rparr>"
      json_loads_example fresh_extractor]
  have k: "\<And>v. reduce_entry py_str_example example_config v entry_without_lineno =
      Inl (KeyError ''lineno'')"
    using inst fields by simp
  have r: "reduce_entries py_str_example example_config []
        ([value_entry ''acc'' 0.80 ''analyze.py'' 40] @ entry_without_lineno # [artifact_entry]) =
      reduce_entry py_str_example example_config
        [(''acc'', \<lparr> ev_name = ''acc'', ev_value = 0.80, ev_formatted_value = ''0.8'',
                     ev_step = ''analyze'', ev_script = Some ''analyze.py'',
                     ev_value_type = ''unknown'', ev_line = Some 40 \<rparr>)] entry_without_lineno"
    using inst pre by blast
  have x: "\<exists>err. extract_values_from_log json_loads_example py_str_example
         \<lparr> provenance_log = Some [log_line_1, log_line_5], values_tex = None \<rparr> fresh_extractor =
       Inl err"
    using inst line by blast
  show ?thesis
    using t fields k r x by simp
qed

section \<open>Pattern matching and marker discovery\<close>
lemma outputs_match_compiled:
  "patterns_compile re_match ps c
     \<Longrightarrow> outputs_match re_match ps c = Inr (step_matches re_match ps c)"
  by (induction ps) (auto simp: patterns_compile_def step_matches_def split: option.splits bool.splits)

lemma find_step_in_first:
  assumes "\<forall>t \<in> set pre. \<not> py_in script (get_cmd t)" and "py_in script (get_cmd s)"
  shows "find_step_in (pre @ s # post) script = sc_name s"
  using assms by (induction pre) auto

lemma find_step_in_none:
  "\<forall>t \<in> set steps. \<not> py_in script (get_cmd t) \<Longrightarrow> find_step_in steps script = None"
  by (induction steps) auto

lemma find_metadata_in_first:
  assumes "\<forall>t \<in> set pre. patterns_compile re_match (sc_outputs t) name
              \<and> \<not> step_matches re_match (sc_outputs t) name"
    and "patterns_compile re_match (sc_outputs s) name"
    and "step_matches re_match (sc_outputs s) name"
  shows "find_metadata_in re_match (pre @ s # post) name =
           (case last_item (py_split (get_cmd s)) of
              Inl err \<Rightarrow> Inl err
            | Inr script \<Rightarrow>
                Inr (Some \<lparr> ai_step = sc_name s, ai_script = script,
                            ai_dependencies = sc_inputs s \<rparr>))"
  using assms by (induction pre) (auto simp: outputs_match_compiled)

lemma find_metadata_in_none:
  "\<forall>t \<in> set steps. patterns_compile re_match (sc_outputs t) name
              \<and> \<not> step_matches re_match (sc_outputs t) name
     \<Longrightarrow> find_metadata_in re_match steps name = Inr None"
  by (induction steps) (auto simp: outputs_match_compiled)

lemma dict_set_fresh: "k \<notin> fst ` set d \<Longrightarrow> dict_set k v d = d @ [(k, v)]"
  by (induction d) auto

lemma load_steps_distinct:
  assumes "load_steps scs d = Inr d'"
    and "distinct (map sc_name scs)"
    and "\<forall>sc \<in> set scs. \<forall>n. sc_name sc = Some n \<longrightarrow> n \<notin> fst ` set d"
  shows "d' = d @ map (\<lambda>sc. (the (sc_name sc), to_pipeline_step sc)) scs"
  using assms
proof (induction scs arbitrary: d)
  case Nil
  then show ?case by simp
next
  case (Cons sc scs)
  from Cons.prems(1) obtain n c where
    n: "sc_name sc = Some n" and c: "sc_cmd sc = Some c"
    and rest: "load_steps scs (dict_set n (to_pipeline_step sc) d) = Inr d'"
    by (auto simp: to_pipeline_step_def split: option.splits)
  have fresh: "n \<notin> fst ` set d"
    using Cons.prems(3) n by auto
  then have upd: "dict_set n (to_pipeline_step sc) d = d @ [(n, to_pipeline_step sc)]"
    by (rule dict_set_fresh)
  have others: "\<forall>sc' \<in> set scs. \<forall>m. sc_name sc' = Some m \<longrightarrow> m \<notin> fst ` set (d @ [(n, to_pipeline_step sc)])"
  proof (intro ballI allI impI)
    fix sc' m
    assume sc': "sc' \<in> set scs" and m: "sc_name sc' = Some m"
    have "m \<notin> fst ` set d"
      using Cons.prems(3) sc' m by simp
    moreover have "sc_name sc \<notin> sc_name ` set scs"
      using Cons.prems(2) by simp
    then have "m \<noteq> n"
      using sc' m n by (metis image_eqI)
    ultimately show "m \<notin> fst ` set (d @ [(n, to_pipeline_step sc)])"
      by simp
  qed
  have dist: "distinct (map sc_name scs)"
    using Cons.prems(2) by simp
  have rest': "load_steps scs (d @ [(n, to_pipeline_step sc)]) = Inr d'"
    using rest upd by simp
  have "d' = (d @ [(n, to_pipeline_step sc)]) @ map (\<lambda>sc. (the (sc_name sc), to_pipeline_step sc)) scs"
    using rest' dist others by (rule Cons.IH)
  then show ?case using n by simp
qed

lemma match_in_steps_first:
  assumes "\<forall>t \<in> set pre. patterns_compile re_match (sc_outputs t) name
              \<and> \<not> step_matches re_match (sc_outputs t) name"
    and "patterns_compile re_match (sc_outputs s) name"
    and "step_matches re_match (sc_outputs s) name"
  shows "match_in_steps re_match file_exists
           (map (\<lambda>sc. (the (sc_name sc), to_pipeline_step sc)) (pre @ s # post)) name =
         Inr (Some \<lparr> am_path = name,
                     am_step_name = the (sc_name s),
                     am_script_path = find_generating_script file_exists (to_pipeline_step s),
                     am_line_number = None,
                     am_dependencies = sc_inputs s \<rparr>)"
  using assms by (induction pre) (auto simp: outputs_match_compiled to_pipeline_step_def)

lemma discover_matches_Inr:
  "discover_matches re_match self t ms acc = Inr acc'
     \<Longrightarrow> acc' = (fst acc @ found_artifacts re_match self t ms,
                 snd acc @ missing_warnings re_match self t ms)
         \<and> (\<forall>m \<in> set ms. \<exists>r. find_metadata_for_artifact re_match self (sp_group1 m) t = Inr r)"
proof (induction ms arbitrary: acc)
  case Nil
  then show ?case by (simp add: found_artifacts_def missing_warnings_def)
next
  case (Cons m ms)
  show ?case
  proof (cases "find_metadata_for_artifact re_match self (sp_group1 m) t")
    case (Inl err)
    with Cons.prems show ?thesis by simp
  next
    case (Inr r)
    show ?thesis
    proof (cases r)
      case None
      with Inr Cons.prems Cons.IH [of "(fst acc, snd acc @ [no_metadata_warning t (sp_group1 m)])"]
      show ?thesis by (simp add: found_artifacts_def missing_warnings_def)
    next
      case (Some md)
      with Inr Cons.prems
        Cons.IH [of "(fst acc @ [\<lparr> da_type = t, da_name = sp_group1 m,
                              da_match_start = sp_start m, da_match_end = sp_end m,
                              da_metadata = md \<rparr>], snd acc)"]
      show ?thesis by (simp add: found_artifacts_def missing_warnings_def)
    qed
  qed
qed

lemma discover_matches_total:
  "\<forall>m \<in> set ms. \<exists>r. find_metadata_for_artifact re_match self (sp_group1 m) t = Inr r
     \<Longrightarrow> \<exists>acc'. discover_matches re_match self t ms acc = Inr acc'"
proof (induction ms arbitrary: acc)
  case Nil
  then show ?case by simp
next
  case (Cons m ms)
  then obtain r where r: "find_metadata_for_artifact re_match self (sp_group1 m) t = Inr r"
    by auto
  from Cons.prems have rest: "\<forall>m \<in> set ms. \<exists>r. find_metadata_for_artifact re_match self (sp_group1 m) t = Inr r"
    by simp
  show ?case
    using r Cons.IH [OF rest] by (cases r) simp_all
qed

lemma length_found_missing:
  "\<forall>m \<in> set ms. \<exists>r. find_metadata_for_artifact re_match self (sp_group1 m) t = Inr r
     \<Longrightarrow> length (found_artifacts re_match self t ms) + length (missing_warnings re_match self t ms)
           = length ms"
proof (induction ms)
  case Nil
  then show ?case by (simp add: found_artifacts_def missing_warnings_def)
next
  case (Cons m ms)
  then obtain r where r: "find_metadata_for_artifact re_match self (sp_group1 m) t = Inr r"
    by auto
  from Cons have "length (found_artifacts re_match self t ms) + length (missing_warnings re_match self t ms)
           = length ms" by simp
  then show ?case
    using r by (cases r) (simp_all add: found_artifacts_def missing_warnings_def)
qed

lemma marker_at_Some:
  assumes "marker_at pfx s = Some name"
  shows "\<exists>rest. s = pfx @ name @ ''}'' @ rest" and "name \<noteq> []" and "CHR ''}'' \<notin> set name"
proof -
  from assms have pre: "prefix pfx s"
    by (auto simp: marker_at_def split: if_splits)
  then obtain body where body: "s = pfx @ body"
    by (auto simp: prefix_def)
  let ?P = "\<lambda>c. c \<noteq> CHR ''}''"
  from assms body have name: "name = takeWhile ?P body"
    and ne: "name \<noteq> []"
    and close: "prefix ''}'' (drop (length name) body)"
    by (auto simp: marker_at_def Let_def split: if_splits)
  from close obtain rest where "drop (length name) body = ''}'' @ rest"
    by (auto simp: prefix_def)
  moreover have "body = take (length name) body @ drop (length name) body"
    by simp
  moreover have "take (length name) body = name"
    unfolding name by (simp add: takeWhile_eq_take [symmetric])
  ultimately have "body = name @ ''}'' @ rest"
    by metis
  with body show "\<exists>rest. s = pfx @ name @ ''}'' @ rest" by blast
  show "name \<noteq> []" by (rule ne)
  show "CHR ''}'' \<notin> set name"
    unfolding name by (auto dest: set_takeWhileD)
qed

lemma marker_at_hit:
  assumes "name \<noteq> []" and "CHR ''}'' \<notin> set name"
  shows "marker_at pfx (pfx @ name @ ''}'' @ rest) = Some name"
proof -
  have "takeWhile (\<lambda>c. c \<noteq> CHR ''}'') (name @ ''}'' @ rest) = name"
    using assms(2) by (auto simp add: takeWhile_tail)
  then show ?thesis
    using assms(1) by (simp add: marker_at_def)
qed

lemma marker_at_length:
  "marker_at pfx s = Some name \<Longrightarrow> length pfx + length name + 1 \<le> length s"
  using marker_at_Some(1) [of pfx s name] by auto

lemma marker_finditer_bounds:
  "m \<in> set (marker_finditer pfx pos s)
     \<Longrightarrow> pos \<le> sp_start m \<and> sp_start m < sp_end m \<and> sp_end m \<le> pos + length s"
proof (induction pfx pos s rule: marker_finditer.induct)
  case (1 pfx pos)
  then show ?case by simp
next
  case (2 pfx pos c cs)
  show ?case
  proof (cases "marker_at pfx (c # cs)")
    case None
    with 2 show ?thesis by force
  next
    case (Some name)
    from marker_at_length [OF Some] have len: "length pfx + length name \<le> length cs"
      by simp
    from 2(3) Some
    consider "m = \<lparr> sp_start = pos, sp_end = pos + (length pfx + length name + 1), sp_group1 = name \<rparr>"
      | "m \<in> set (marker_finditer pfx (pos + (length pfx + length name + 1))
                (drop (length pfx + length name) cs))"
      by auto
    then show ?thesis
    proof cases
      case 1
      with len show ?thesis by simp
    next
      case 2
      from "2.IH"(2) [OF Some this] len show ?thesis by simp
    qed
  qed
qed

lemma marker_finditer_sorted:
  "sorted_wrt (<) (map sp_start (marker_finditer pfx pos s))"
proof (induction pfx pos s rule: marker_finditer.induct)
  case (1 pfx pos)
  then show ?case by simp
next
  case (2 pfx pos c cs)
  show ?case
  proof (cases "marker_at pfx (c # cs)")
    case None
    with 2 show ?thesis by simp
  next
    case (Some name)
    have "\<forall>m \<in> set (marker_finditer pfx (pos + (length pfx + length name + 1))
                (drop (length pfx + length name) cs)). pos < sp_start m"
      using marker_finditer_bounds by fastforce
    with "2.IH"(2) [OF Some] Some show ?thesis by simp
  qed
qed

lemma marker_finditer_sound:
  "m \<in> set (marker_finditer pfx pos s)
     \<Longrightarrow> take (sp_end m - sp_start m) (drop (sp_start m - pos) s) = pfx @ sp_group1 m @ ''}''
         \<and> sp_group1 m \<noteq> [] \<and> CHR ''}'' \<notin> set (sp_group1 m)"
proof (induction pfx pos s rule: marker_finditer.induct)
  case (1 pfx pos)
  then show ?case by simp
next
  case (2 pfx pos c cs)
  show ?case
  proof (cases "marker_at pfx (c # cs)")
    case None
    with 2 have m: "m \<in> set (marker_finditer pfx (Suc pos) cs)" by simp
    from marker_finditer_bounds [OF m] have "Suc pos \<le> sp_start m" by simp
    then have "sp_start m - pos = Suc (sp_start m - Suc pos)" by simp
    with "2.IH"(1) [OF None m] show ?thesis by simp
  next
    case (Some name)
    from marker_at_length [OF Some] have len: "length pfx + length name \<le> length cs"
      by simp
    from 2(3) Some
    consider "m = \<lparr> sp_start = pos, sp_end = pos + (length pfx + length name + 1), sp_group1 = name \<rparr>"
      | "m \<in> set (marker_finditer pfx (pos + (length pfx + length name + 1))
                (drop (length pfx + length name) cs))"
      by auto
    then show ?thesis
    proof cases
      case 1
      from marker_at_Some [OF Some] obtain rest where
        "c # cs = pfx @ name @ ''}'' @ rest" "name \<noteq> []" "CHR ''}'' \<notin> set name"
        by blast
      with 1 show ?thesis by simp
    next
      case 2
      let ?n = "length pfx + length name"
      from marker_finditer_bounds [OF 2] have "pos + (?n + 1) \<le> sp_start m" by simp
      then have "sp_start m - pos = Suc ?n + (sp_start m - (pos + (?n + 1)))" by simp
      moreover have "drop (Suc ?n + k) (c # cs) = drop k (drop ?n cs)" for k
        by (simp add: add.commute)
      ultimately have "drop (sp_start m - pos) (c # cs)
          = drop (sp_start m - (pos + (?n + 1))) (drop ?n cs)"
        by simp
      with "2.IH"(2) [OF Some 2] show ?thesis by simp
    qed
  qed
qed

lemma marker_at_append_closed:
  assumes "s \<noteq> []" and "last s = CHR ''}''" and "CHR ''}'' \<notin> set pfx"
  shows "marker_at pfx (s @ rest) = marker_at pfx s"
proof (cases "prefix pfx s")
  case True
  then obtain body where body: "s = pfx @ body"
    by (auto simp: prefix_def)
  have "body \<noteq> []"
  proof
    assume "body = []"
    with body assms(1,2) have "pfx \<noteq> []" "last pfx = CHR ''}''" by simp_all
    then have "CHR ''}'' \<in> set pfx" using last_in_set by fastforce
    with assms(3) show False by simp
  qed
  with assms(2) body have lastb: "last body = CHR ''}''" by simp
  let ?P = "\<lambda>c. c \<noteq> CHR ''}''"
  from \<open>body \<noteq> []\<close> lastb have ex: "\<exists>x \<in> set body. \<not> ?P x"
    using last_in_set by fastforce
  then have tw: "takeWhile ?P (body @ rest) = takeWhile ?P body"
    by (simp add: takeWhile_append1)
  have "length (takeWhile ?P body) \<noteq> length body"
  proof
    assume eq: "length (takeWhile ?P body) = length body"
    have "takeWhile ?P body = take (length (takeWhile ?P body)) body"
      by (rule takeWhile_eq_take)
    with eq have "takeWhile ?P body = body" by simp
    with ex show False by (auto simp add: takeWhile_eq_all_conv)
  qed
  moreover have "length (takeWhile ?P body) \<le> length body"
    by (rule length_takeWhile_le)
  ultimately have "length (takeWhile ?P body) < length body"
    by simp
  then have "drop (length (takeWhile ?P body)) body \<noteq> []" by simp
  then have "prefix ''}'' (drop (length (takeWhile ?P body)) (body @ rest))
      = prefix ''}'' (drop (length (takeWhile ?P body)) body)"
    by (cases "drop (length (takeWhile ?P body)) body") auto
  with tw body show ?thesis
    by (simp add: marker_at_def Let_def)
next
  case False
  have "\<not> prefix pfx (s @ rest)"
  proof
    assume "prefix pfx (s @ rest)"
    then have "prefix pfx s \<or> (\<exists>us. pfx = s @ us \<and> prefix us rest)"
      by (simp only: prefix_append)
    then consider "prefix pfx s" | us where "pfx = s @ us"
      by blast
    then show False
    proof cases
      case 1
      with False show False by simp
    next
      case 2
      with assms(1,2) have "CHR ''}'' \<in> set pfx"
        using last_in_set by fastforce
      with assms(3) show False by simp
    qed
  qed
  with False show ?thesis by (simp add: marker_at_def)
qed

lemma marker_finditer_append_closed:
  assumes "CHR ''}'' \<notin> set pfx"
  shows "A = [] \<or> last A = CHR ''}''
     \<Longrightarrow> marker_finditer pfx pos (A @ rest) =
           marker_finditer pfx pos A @ marker_finditer pfx (pos + length A) rest"
  using assms
proof (induction pfx pos A rule: marker_finditer.induct)
  case (1 pfx pos)
  then show ?case by simp
next
  case (2 pfx pos c cs)
  from "2.prems" have lastA: "last (c # cs) = CHR ''}''" by simp
  then have tail: "cs = [] \<or> last cs = CHR ''}''" by (cases cs) auto
  have at: "marker_at pfx ((c # cs) @ rest) = marker_at pfx (c # cs)"
    using lastA "2.prems"(2) by (intro marker_at_append_closed) simp_all
  show ?case
  proof (cases "marker_at pfx (c # cs)")
    case None
    with at "2.IH"(1) [OF None tail "2.prems"(2)] show ?thesis by simp
  next
    case (Some name)
    let ?n = "length pfx + length name"
    from marker_at_length [OF Some] have len: "?n \<le> length cs" by simp
    have tail': "drop ?n cs = [] \<or> last (drop ?n cs) = CHR ''}''"
      using tail by (cases "drop ?n cs = []") auto
    have "drop ?n (cs @ rest) = drop ?n cs @ rest"
      using len by simp
    moreover have "pos + (?n + 1) + length (drop ?n cs) = pos + length (c # cs)"
      using len by simp
    ultimately show ?thesis
      using at Some "2.IH"(2) [OF Some tail' "2.prems"(2)] by simp
  qed
qed

lemma no_straddle:
  assumes "pfx \<noteq> []" and "hd pfx \<notin> set (tl pfx)" and "\<not> prefix pfx (b # bs)"
  shows "\<not> prefix pfx ((b # bs) @ pfx @ rest)"
proof
  assume "prefix pfx ((b # bs) @ pfx @ rest)"
  then have "prefix pfx (b # bs) \<or> (\<exists>us. pfx = (b # bs) @ us \<and> prefix us (pfx @ rest))"
    by (simp only: prefix_append)
  then consider "prefix pfx (b # bs)" | us where "pfx = (b # bs) @ us" "prefix us (pfx @ rest)"
    by blast
  then show False
  proof cases
    case 1
    with assms(3) show False by simp
  next
    case 2
    have "us \<noteq> []"
      using 2(1) assms(3) by auto
    with 2(2) assms(1) have "hd us = hd pfx"
      by (cases us; cases pfx) auto
    moreover have "hd us \<in> set (tl pfx)"
      using 2(1) \<open>us \<noteq> []\<close> by simp
    ultimately show False using assms(2) by simp
  qed
qed

lemma marker_finditer_skip:
  assumes "pfx \<noteq> []" and "hd pfx \<notin> set (tl pfx)"
  shows "\<not> py_in pfx B
     \<Longrightarrow> marker_finditer pfx pos (B @ pfx @ rest) = marker_finditer pfx (pos + length B) (pfx @ rest)"
proof (induction B arbitrary: pos)
  case Nil
  then show ?case by simp
next
  case (Cons b bs)
  then have np: "\<not> prefix pfx (b # bs)" and rec: "\<not> py_in pfx bs" by simp_all
  from no_straddle [OF assms np, of rest] have "marker_at pfx (b # bs @ pfx @ rest) = None"
    by (simp add: marker_at_def)
  with Cons.IH [OF rec, of "Suc pos"] show ?case by simp
qed

lemma marker_finditer_hit:
  assumes "pfx \<noteq> []" and "name \<noteq> []" and "CHR ''}'' \<notin> set name"
  shows "marker_finditer pfx pos (pfx @ name @ ''}'' @ post) =
           \<lparr> sp_start = pos, sp_end = pos + (length pfx + length name + 1), sp_group1 = name \<rparr>
             # marker_finditer pfx (pos + (length pfx + length name + 1)) post"
proof -
  from assms(1) obtain c cs where pfx: "pfx = c # cs" by (cases pfx) auto
  have at: "marker_at pfx (c # cs @ name @ ''}'' @ post) = Some name"
    using marker_at_hit [OF assms(2,3), of pfx post] pfx by simp
  have "drop (length pfx + length name) (cs @ name @ ''}'' @ post) = post"
    using pfx by simp
  with at pfx show ?thesis by simp
qed

lemma marker_finditer_complete:
  assumes "pfx \<noteq> []" and "hd pfx \<notin> set (tl pfx)" and "CHR ''}'' \<notin> set pfx"
    and "A = [] \<or> last A = CHR ''}''" and "\<not> py_in pfx B"
    and "name \<noteq> []" and "CHR ''}'' \<notin> set name"
  shows "marker_finditer pfx 0 (A @ B @ pfx @ name @ ''}'' @ post) =
           marker_finditer pfx 0 A
           @ \<lparr> sp_start = length A + length B,
               sp_end = length A + length B + (length pfx + length name + 1),
               sp_group1 = name \<rparr>
           # marker_finditer pfx (length A + length B + (length pfx + length name + 1)) post"
  using marker_finditer_append_closed [OF assms(3,4), of 0 "B @ pfx @ name @ ''}'' @ post"]
    marker_finditer_skip [OF assms(1,2,5), of "length A" "name @ ''}'' @ post"]
    marker_finditer_hit [OF assms(1,6,7), of "length A + length B" post]
  by simp

lemma set_found_artifacts:
  "set (found_artifacts re_match self t ms) =
     {\<lparr> da_type = t, da_name = sp_group1 m, da_match_start = sp_start m,
        da_match_end = sp_end m, da_metadata = md \<rparr> | m md.
        m \<in> set ms \<and> find_metadata_for_artifact re_match self (sp_group1 m) t = Inr (Some md)}"
  by (auto simp: found_artifacts_def split: sum.splits option.splits)

lemma set_missing_warnings:
  "set (missing_warnings re_match self t ms) =
     {no_metadata_warning t (sp_group1 m) | m.
        m \<in> set ms \<and> find_metadata_for_artifact re_match self (sp_group1 m) t = Inr None}"
  by (auto simp: missing_warnings_def split: sum.splits option.splits)


lemma discover_Inr:
  assumes "discover_artifacts_in_latex re_match self (Some content) = Inr (arts, prints)"
  shows "arts = found_artifacts re_match self ''value'' (marker_finditer value_prefix 0 content)
              @ found_artifacts re_match self ''artifact'' (marker_finditer artifact_prefix 0 content)"
    and "prints = missing_warnings re_match self ''value'' (marker_finditer value_prefix 0 content)
              @ missing_warnings re_match self ''artifact'' (marker_finditer artifact_prefix 0 content)"
    and "\<forall>m \<in> set (marker_finditer value_prefix 0 content).
           \<exists>r. find_metadata_for_artifact re_match self (sp_group1 m) ''value'' = Inr r"
    and "\<forall>m \<in> set (marker_finditer artifact_prefix 0 content).
           \<exists>r. find_metadata_for_artifact re_match self (sp_group1 m) ''artifact'' = Inr r"
proof -
  from assms obtain acc where
    v: "discover_matches re_match self ''value'' (marker_finditer value_prefix 0 content) ([], []) = Inr acc"
    and a: "discover_matches re_match self ''artifact'' (marker_finditer artifact_prefix 0 content) acc
              = Inr (arts, prints)"
    by (auto simp: discover_artifacts_in_latex_def split: sum.splits)
  note dv = discover_matches_Inr [OF v]
  note da = discover_matches_Inr [OF a]
  from dv da show
    "arts = found_artifacts re_match self ''value'' (marker_finditer value_prefix 0 content)
              @ found_artifacts re_match self ''artifact'' (marker_finditer artifact_prefix 0 content)"
    "prints = missing_warnings re_match self ''value'' (marker_finditer value_prefix 0 content)
              @ missing_warnings re_match self ''artifact'' (marker_finditer artifact_prefix 0 content)"
    by simp_all
  from dv show "\<forall>m \<in> set (marker_finditer value_prefix 0 content).
           \<exists>r. find_metadata_for_artifact re_match self (sp_group1 m) ''value'' = Inr r"
    by blast
  from da show "\<forall>m \<in> set (marker_finditer artifact_prefix 0 content).
           \<exists>r. find_metadata_for_artifact re_match self (sp_group1 m) ''artifact'' = Inr r"
    by blast
qed

lemma discover_total:
  assumes "\<And>n t. \<exists>r. find_metadata_for_artifact re_match self n t = Inr r"
  shows "\<exists>arts prints. discover_artifacts_in_latex re_match self (Some content) = Inr (arts, prints)"
proof -
  from discover_matches_total [of "marker_finditer value_prefix 0 content" re_match self "''value''" "([], [])"]
    assms
  obtain acc where
    v: "discover_matches re_match self ''value'' (marker_finditer value_prefix 0 content) ([], []) = Inr acc"
    by blast
  from discover_matches_total [of "marker_finditer artifact_prefix 0 content" re_match self "''artifact''" acc]
    assms
  obtain acc' where
    "discover_matches re_match self ''artifact'' (marker_finditer artifact_prefix 0 content) acc = Inr acc'"
    by blast
  with v show ?thesis
    by (cases acc') (simp add: discover_artifacts_in_latex_def)
qed

lemma find_metadata_in_total:
  "\<forall>t \<in> set steps. py_split (get_cmd t) \<noteq> [] \<and> patterns_compile re_match (sc_outputs t) n
     \<Longrightarrow> \<exists>r. find_metadata_in re_match steps n = Inr r"
  by (induction steps) (auto simp: outputs_match_compiled last_item_def split: bool.splits)

lemma prefix_facts:
  "value_prefix \<noteq> []" "hd value_prefix \<notin> set (tl value_prefix)" "CHR ''}'' \<notin> set value_prefix"
  "artifact_prefix \<noteq> []" "hd artifact_prefix \<notin> set (tl artifact_prefix)"
  "CHR ''}'' \<notin> set artifact_prefix"
  by (simp_all add: value_prefix_def artifact_prefix_def)

lemma discovered_metadata:
  assumes "discover_artifacts_in_latex re_match self latex = Inr (arts, prints)"
    and "a \<in> set arts"
  shows "find_metadata_for_artifact re_match self (da_name a) (da_type a) = Inr (Some (da_metadata a))"
proof -
  from assms(1) obtain content where latex: "latex = Some content"
    by (cases latex) (auto simp: discover_artifacts_in_latex_def)
  from discover_Inr(1) [OF assms(1) [unfolded latex]] assms(2)
  show ?thesis by (auto simp: set_found_artifacts)
qed

lemma load_steps_named:
  "load_steps scs d = Inr d' \<Longrightarrow> \<forall>sc \<in> set scs. \<exists>n. sc_name sc = Some n"
  by (induction scs arbitrary: d) (auto split: option.splits)

text \<open>
  C3. Let \<open>s\<close> be a step of the manifest and \<open>pre\<close> the steps declared before it.
  \<^item> Script paths: when the command of no step of \<open>pre\<close> contains the path and the command
    of \<open>s\<close> does, \<^verbatim>\<open>_find_step_for_script\<close> returns the name of \<open>s\<close>, whatever is declared
    after it.
  \<^item> Names: when no output pattern of a step of \<open>pre\<close> matches the name and one of \<open>s\<close>
    does (the patterns up to there compile), \<^verbatim>\<open>_find_metadata_for_artifact\<close> returns the
    metadata of \<open>s\<close> (or the error of \<^verbatim>\<open>split()[-1]\<close> on its command), and
    \<^verbatim>\<open>_match_artifact_to_step\<close> returns \<open>s\<close> too, on the processor loaded from a manifest
    whose step names are distinct, so that its dictionary iterates the steps as declared.
  \<^item> Every artifact that \<^verbatim>\<open>discover_artifacts_in_latex\<close> returns carries exactly the
    metadata the lookup of its own name gives: the resolution of one annotation does not
    depend on the other annotations or on their order.
\<close>

theorem first_declared_step_wins:
  assumes "pipeline cfg = pre @ s # post"
  shows "((\<forall>t \<in> set pre. \<not> py_in script_path (get_cmd t)) \<and> py_in script_path (get_cmd s) \<longrightarrow>
            find_step_for_script cfg script_path = sc_name s)
       \<and> ((\<forall>t \<in> set pre. patterns_compile re_match (sc_outputs t) name
                            \<and> \<not> step_matches re_match (sc_outputs t) name)
           \<and> patterns_compile re_match (sc_outputs s) name
           \<and> step_matches re_match (sc_outputs s) name \<longrightarrow>
            (\<forall>self. mp_config self = cfg \<longrightarrow>
               find_metadata_for_artifact re_match self name artifact_type =
                 (case last_item (py_split (get_cmd s)) of
                    Inl err \<Rightarrow> Inl err
                  | Inr script \<Rightarrow>
                      Inr (Some \<lparr> ai_step = sc_name s, ai_script = script,
                                  ai_dependencies = sc_inputs s \<rparr>)))
          \<and> (\<forall>self. load_config cfg = Inr self \<and> distinct (map sc_name (pipeline cfg)) \<longrightarrow>
               (\<exists>m. match_artifact_to_step re_match file_exists self name = Inr (Some m)
                    \<and> sc_name s = Some (am_step_name m) \<and> am_path m = name
                    \<and> am_dependencies m = sc_inputs s)))
       \<and> (\<forall>self latex arts prints.
             discover_artifacts_in_latex re_match self latex = Inr (arts, prints) \<longrightarrow>
             (\<forall>a \<in> set arts.
                find_metadata_for_artifact re_match self (da_name a) (da_type a) =
                  Inr (Some (da_metadata a))))"
proof (intro conjI impI allI ballI)
  assume "(\<forall>t \<in> set pre. \<not> py_in script_path (get_cmd t)) \<and> py_in script_path (get_cmd s)"
  then show "find_step_for_script cfg script_path = sc_name s"
    using assms by (simp add: find_step_for_script_def find_step_in_first)
next
  fix self :: metadata_processor
  assume h: "(\<forall>t \<in> set pre. patterns_compile re_match (sc_outputs t) name
                            \<and> \<not> step_matches re_match (sc_outputs t) name)
           \<and> patterns_compile re_match (sc_outputs s) name
           \<and> step_matches re_match (sc_outputs s) name"
    and cfg: "mp_config self = cfg"
  from h have "find_metadata_in re_match (pre @ s # post) name =
           (case last_item (py_split (get_cmd s)) of
              Inl err \<Rightarrow> Inl err
            | Inr script \<Rightarrow>
                Inr (Some \<lparr> ai_step = sc_name s, ai_script = script,
                            ai_dependencies = sc_inputs s \<rparr>))"
    by (intro find_metadata_in_first) simp_all
  then show "find_metadata_for_artifact re_match self name artifact_type =
                 (case last_item (py_split (get_cmd s)) of
                    Inl err \<Rightarrow> Inl err
                  | Inr script \<Rightarrow>
                      Inr (Some \<lparr> ai_step = sc_name s, ai_script = script,
                                  ai_dependencies = sc_inputs s \<rparr>))"
    using assms cfg by (simp add: find_metadata_for_artifact_def)
next
  fix self :: metadata_processor
  assume h: "(\<forall>t \<in> set pre. patterns_compile re_match (sc_outputs t) name
                            \<and> \<not> step_matches re_match (sc_outputs t) name)
           \<and> patterns_compile re_match (sc_outputs s) name
           \<and> step_matches re_match (sc_outputs s) name"
    and ld: "load_config cfg = Inr self \<and> distinct (map sc_name (pipeline cfg))"
  from ld obtain d where d: "load_steps (pipeline cfg) [] = Inr d"
    and self: "mp_pipeline_steps self = d"
    by (auto simp: load_config_def split: sum.splits)
  have "d = [] @ map (\<lambda>sc. (the (sc_name sc), to_pipeline_step sc)) (pipeline cfg)"
    using d ld by (intro load_steps_distinct) simp_all
  then have steps: "mp_pipeline_steps self =
      map (\<lambda>sc. (the (sc_name sc), to_pipeline_step sc)) (pre @ s # post)"
    using self assms by simp
  have named: "\<exists>n. sc_name s = Some n"
    using load_steps_named [OF d] assms by auto
  show "\<exists>m. match_artifact_to_step re_match file_exists self name = Inr (Some m)
                    \<and> sc_name s = Some (am_step_name m) \<and> am_path m = name
                    \<and> am_dependencies m = sc_inputs s"
    using h named match_in_steps_first [of pre re_match name s file_exists post]
    unfolding match_artifact_to_step_def steps by auto
next
  fix self latex arts prints a
  assume "discover_artifacts_in_latex re_match self latex = Inr (arts, prints)" "a \<in> set arts"
  then show "find_metadata_for_artifact re_match self (da_name a) (da_type a) =
                  Inr (Some (da_metadata a))"
    by (rule discovered_metadata)
qed

lemmas pm_defs = py_re_match_def glob_to_regex_def replace_char_def rx_meta_def py_split_def
  py_isspace_def last_item_def step_matches_def patterns_compile_def get_cmd_def load_config_def
  match_artifact_to_step_def find_generating_script_def ends_with_py_def
  find_metadata_for_artifact_def find_step_for_script_def suffix_to_prefix

lemmas pm_example_defs = step_prepare_def step_analyze_def step_plot_def example_config_def
  example_processor_def project_files_def glob_config_def glob_processor_def

text \<open>
  In the example manifest \<^verbatim>\<open>analyze\<close> and \<^verbatim>\<open>plot\<close> both mention \<^verbatim>\<open>analyze.py\<close> and both
  declare a pattern that matches \<^verbatim>\<open>fig_1.png\<close>; \<^verbatim>\<open>analyze\<close> is declared first and wins
  on every path.
\<close>

theorem first_declared_step_wins_witness:
  "pipeline example_config = [step_prepare] @ step_analyze # [step_plot]
   \<and> py_in ''analyze.py'' (get_cmd step_analyze) \<and> py_in ''analyze.py'' (get_cmd step_plot)
   \<and> find_step_for_script example_config ''analyze.py'' = Some ''analyze''
   \<and> step_matches py_re_match (sc_outputs step_analyze) ''fig_1.png''
   \<and> step_matches py_re_match (sc_outputs step_plot) ''fig_1.png''
   \<and> find_metadata_for_artifact py_re_match example_processor ''fig_1.png'' ''artifact'' =
       Inr (Some \<lparr> ai_step = Some ''analyze'', ai_script = ''analyze.py'',
                   ai_dependencies = [''data.csv''] \<rparr>)
   \<and> load_config example_config = Inr example_processor
   \<and> match_artifact_to_step py_re_match project_files example_processor ''fig_1.png'' =
       Inr (Some \<lparr> am_path = ''fig_1.png'', am_step_name = ''analyze'',
                   am_script_path = Some ''analyze.py'', am_line_number = None,
                   am_dependencies = [''data.csv''] \<rparr>)"
proof -
  have split: "pipeline example_config = [step_prepare] @ step_analyze # [step_plot]"
    by (simp add: example_config_def)
  note inst = first_declared_step_wins [OF split, of "''analyze.py''" py_re_match "''fig_1.png''"
      "''artifact''" project_files]
  have script: "(\<forall>t \<in> set [step_prepare]. \<not> py_in ''analyze.py'' (get_cmd t))
      \<and> py_in ''analyze.py'' (get_cmd step_analyze)"
    by (simp add: pm_defs pm_example_defs)
  have later: "py_in ''analyze.py'' (get_cmd step_plot)"
    by (simp add: pm_defs pm_example_defs)
  have pats: "(\<forall>t \<in> set [step_prepare]. patterns_compile py_re_match (sc_outputs t) ''fig_1.png''
                            \<and> \<not> step_matches py_re_match (sc_outputs t) ''fig_1.png'')
           \<and> patterns_compile py_re_match (sc_outputs step_analyze) ''fig_1.png''
           \<and> step_matches py_re_match (sc_outputs step_analyze) ''fig_1.png''"
    by (simp add: pm_defs pm_example_defs)
  have later_pat: "step_matches py_re_match (sc_outputs step_plot) ''fig_1.png''"
    by (simp add: pm_defs pm_example_defs)
  have cfg: "mp_config example_processor = example_config"
    by (simp add: example_processor_def)
  have ld: "load_config example_config = Inr example_processor
      \<and> distinct (map sc_name (pipeline example_config))"
    by (simp add: pm_defs pm_example_defs)
  have r1: "find_step_for_script example_config ''analyze.py'' = Some ''analyze''"
    using inst script by (simp add: step_analyze_def)
  have r2: "find_metadata_for_artifact py_re_match example_processor ''fig_1.png'' ''artifact'' =
       Inr (Some \<lparr> ai_step = Some ''analyze'', ai_script = ''analyze.py'',
                   ai_dependencies = [''data.csv''] \<rparr>)"
  proof -
    from inst pats cfg
    have "find_metadata_for_artifact py_re_match example_processor ''fig_1.png'' ''artifact'' =
                 (case last_item (py_split (get_cmd step_analyze)) of
                    Inl err \<Rightarrow> Inl err
                  | Inr script \<Rightarrow>
                      Inr (Some \<lparr> ai_step = sc_name step_analyze, ai_script = script,
                                  ai_dependencies = sc_inputs step_analyze \<rparr>))"
      by blast
    then show ?thesis
      by (simp add: step_analyze_def get_cmd_def py_split_def py_isspace_def last_item_def)
  qed
  from inst pats ld obtain m where
    m: "match_artifact_to_step py_re_match project_files example_processor ''fig_1.png'' = Inr (Some m)"
    and "sc_name step_analyze = Some (am_step_name m)"
    by blast
  have r3: "match_artifact_to_step py_re_match project_files example_processor ''fig_1.png'' =
       Inr (Some \<lparr> am_path = ''fig_1.png'', am_step_name = ''analyze'',
                   am_script_path = Some ''analyze.py'', am_line_number = None,
                   am_dependencies = [''data.csv''] \<rparr>)"
    by (simp add: pm_defs pm_example_defs)
  from split script later pats later_pat ld r1 r2 r3 show ?thesis by blast
qed

text \<open>
  The hypothesis on the step names in the dictionary path is needed: when a later step
  repeats a name, \<^verbatim>\<open>_load_config\<close> stores it at the place of the earlier one, and the
  dictionary no longer iterates the steps as declared. In \<open>dup_config\<close> the second declared
  step is the first that matches \<^verbatim>\<open>y1\<close>; the list lookup returns it, the dictionary lookup
  returns the third.
\<close>

lemma duplicate_names_dictionary_order:
  "load_config dup_config = Inr dup_processor
   \<and> find_metadata_for_artifact py_re_match dup_processor ''y1'' ''artifact'' =
       Inr (Some \<lparr> ai_step = Some ''second'', ai_script = ''b.py'', ai_dependencies = [] \<rparr>)
   \<and> match_artifact_to_step py_re_match project_files dup_processor ''y1'' =
       Inr (Some \<lparr> am_path = ''y1'', am_step_name = ''first'', am_script_path = None,
                   am_line_number = None, am_dependencies = [] \<rparr>)"
  by (simp add: pm_defs dup_config_def dup_processor_def project_files_def)

lemmas discover_defs = value_prefix_def artifact_prefix_def marker_at_def
  discover_artifacts_in_latex_def no_metadata_warning_def

lemmas doc_defs = doc_spec_markers_def doc_two_markers_def doc_unmatched_def doc_mixed_def
  doc_latex_def two_markers_result_def mixed_result_def

lemma glob_to_regex_Nil: "glob_to_regex [] = []"
  by (simp add: glob_to_regex_def replace_char_def)

lemma glob_to_regex_Cons:
  "glob_to_regex (p # ps) =
     (if p = CHR ''*'' then ''.*'' else if p = CHR ''?'' then ''.'' else [p]) @ glob_to_regex ps"
  by (simp add: glob_to_regex_def replace_char_def)

lemma glob_to_regex_no_star_head:
  "glob_to_regex ps = c # cs \<Longrightarrow> c \<noteq> CHR ''*''"
  by (cases ps) (auto simp: glob_to_regex_Nil glob_to_regex_Cons split: if_splits)

lemma rx_meta_simps: "\<not> rx_meta (CHR ''.'')" "rx_meta (CHR ''*'')" "rx_meta (CHR ''?'')"
  by (simp_all add: rx_meta_def)

lemma rx_parse_once:
  assumes "\<not> rx_meta c" and "\<And>d ds. rest = d # ds \<Longrightarrow> d \<noteq> CHR ''*''"
  shows "rx_parse (c # rest) =
           map_option ((#) (Once (if c = CHR ''.'' then AnyChar else Lit c))) (rx_parse rest)"
  using assms by (cases rest) (auto simp: Let_def)

lemma rx_parse_glob:
  "\<forall>c \<in> set P. glob_char_plain c \<Longrightarrow> rx_parse (glob_to_regex P) = Some (map glob_item P)"
proof (induction P)
  case Nil
  then show ?case by (simp add: glob_to_regex_Nil)
next
  case (Cons p ps)
  then have IH: "rx_parse (glob_to_regex ps) = Some (map glob_item ps)" by simp
  have nostar: "\<And>d ds. glob_to_regex ps = d # ds \<Longrightarrow> d \<noteq> CHR ''*''"
    by (rule glob_to_regex_no_star_head)
  consider "p = CHR ''*''" | "p = CHR ''?''" | "p \<noteq> CHR ''*''" "p \<noteq> CHR ''?''" by blast
  then show ?case
  proof cases
    case 1
    then show ?thesis
      using IH by (simp add: glob_to_regex_Cons rx_meta_simps glob_item_def)
  next
    case 2
    then show ?thesis
      using IH rx_parse_once [of "CHR ''.''" "glob_to_regex ps"] nostar
      by (simp add: glob_to_regex_Cons rx_meta_simps glob_item_def)
  next
    case 3
    with Cons.prems have "\<not> rx_meta p" "p \<noteq> CHR ''.''"
      by (auto simp: glob_char_plain_def)
    then show ?thesis
      using 3 IH rx_parse_once [of p "glob_to_regex ps"] nostar
      by (simp add: glob_to_regex_Cons glob_item_def)
  qed
qed

lemma ex_take_Cons:
  "(\<exists>n. Q (take n (c # cs))) = (Q [] \<or> (\<exists>n. Q (c # take n cs)))"
proof
  assume "\<exists>n. Q (take n (c # cs))"
  then obtain n where n: "Q (take n (c # cs))" ..
  then show "Q [] \<or> (\<exists>n. Q (c # take n cs))"
    by (cases n) auto
next
  assume "Q [] \<or> (\<exists>n. Q (c # take n cs))"
  then show "\<exists>n. Q (take n (c # cs))"
  proof
    assume "Q []"
    then have "Q (take 0 (c # cs))" by simp
    then show ?thesis ..
  next
    assume "\<exists>n. Q (c # take n cs)"
    then obtain n where "Q (c # take n cs)" ..
    then have "Q (take (Suc n) (c # cs))" by simp
    then show ?thesis ..
  qed
qed

lemma rx_match_glob:
  "newline \<notin> set S
     \<Longrightarrow> rx_match (map glob_item P) S = (\<exists>n. spec_glob_match P (take n S))"
proof (induction P S rule: spec_glob_match.induct)
  case (1 s)
  have "spec_glob_match [] (take 0 s)" by simp
  then have "\<exists>n. spec_glob_match [] (take n s)" ..
  then show ?case by simp
next
  case (2 p ps)
  then show ?case by (simp add: glob_item_def)
next
  case (3 p ps c cs)
  from "3.prems" have c: "c \<noteq> newline" and cs: "newline \<notin> set cs" by auto
  show ?case
  proof (cases "p = CHR ''*''")
    case True
    have a: "rx_match (map glob_item ps) (c # cs) = (\<exists>n. spec_glob_match ps (take n (c # cs)))"
      using "3.IH"(1) [OF True "3.prems"] .
    have b: "rx_match (map glob_item (p # ps)) cs = (\<exists>n. spec_glob_match (p # ps) (take n cs))"
      using "3.IH"(2) [OF True cs] .
    have "rx_match (map glob_item (p # ps)) (c # cs) =
        (rx_match (map glob_item (p # ps)) cs \<or> rx_match (map glob_item ps) (c # cs))"
      using True c by (simp add: glob_item_def)
    also have "\<dots> = ((\<exists>n. spec_glob_match (p # ps) (take n cs))
                    \<or> (\<exists>n. spec_glob_match ps (take n (c # cs))))"
      by (simp only: a b)
    also have "\<dots> = (\<exists>n. spec_glob_match (p # ps) (take n (c # cs)))"
      unfolding ex_take_Cons [of "spec_glob_match (p # ps)" c cs]
        ex_take_Cons [of "spec_glob_match ps" c cs]
      using True by auto
    finally show ?thesis .
  next
    case False
    have a: "rx_match (map glob_item ps) cs = (\<exists>n. spec_glob_match ps (take n cs))"
      using "3.IH"(3) [OF False cs] .
    have "rx_match (map glob_item (p # ps)) (c # cs) =
        ((p = CHR ''?'' \<or> p = c) \<and> rx_match (map glob_item ps) cs)"
      using False c by (auto simp: glob_item_def)
    also have "\<dots> = ((p = CHR ''?'' \<or> p = c) \<and> (\<exists>n. spec_glob_match ps (take n cs)))"
      by (simp only: a)
    also have "\<dots> = (\<exists>n. spec_glob_match (p # ps) (take n (c # cs)))"
      unfolding ex_take_Cons [of "spec_glob_match (p # ps)" c cs]
      using False by auto
    finally show ?thesis .
  qed
qed

text \<open>
  What the conversion computes on a plain glob and a name without line feed: the match
  succeeds exactly when some prefix of the name satisfies the glob. The end of the name is
  not anchored.
\<close>

lemma py_re_match_glob:
  assumes "\<forall>c \<in> set P. glob_char_plain c" and "newline \<notin> set S"
  shows "py_re_match (glob_to_regex P) S = Some (\<exists>n. spec_glob_match P (take n S))"
  using assms by (simp add: py_re_match_def rx_parse_glob rx_match_glob)

text \<open>
  C1. The claim is the anchored glob semantics; the code replaces \<^verbatim>\<open>*\<close> by \<^verbatim>\<open>.*\<close> and \<^verbatim>\<open>?\<close> by
  \<^verbatim>\<open>.\<close> and calls \<^verbatim>\<open>re.match\<close>, which anchors the start only and reads the \<^verbatim>\<open>.\<close> of the
  pattern as any character. On the step with the single pattern \<^verbatim>\<open>fig_*.png\<close> the code agrees
  with the glob on the three names of the claim, and it also matches \<^verbatim>\<open>fig_1.png.bak\<close> and
  \<^verbatim>\<open>fig_1xpng\<close>, which the glob does not match.
\<close>

theorem glob_match_accepts_more_than_glob:
  "spec_glob_match ''fig_*.png'' ''fig_1.png''
   \<and> find_metadata_for_artifact py_re_match glob_processor ''fig_1.png'' ''artifact'' =
       Inr (Some \<lparr> ai_step = Some ''plot'', ai_script = ''plot.py'', ai_dependencies = [] \<rparr>)
   \<and> \<not> spec_glob_match ''fig_*.png'' ''fig_1.pdf''
   \<and> find_metadata_for_artifact py_re_match glob_processor ''fig_1.pdf'' ''artifact'' = Inr None
   \<and> \<not> spec_glob_match ''fig_*.png'' ''sub/fig_1.png''
   \<and> find_metadata_for_artifact py_re_match glob_processor ''sub/fig_1.png'' ''artifact'' = Inr None
   \<and> \<not> spec_glob_match ''fig_*.png'' ''fig_1.png.bak''
   \<and> find_metadata_for_artifact py_re_match glob_processor ''fig_1.png.bak'' ''artifact'' =
       Inr (Some \<lparr> ai_step = Some ''plot'', ai_script = ''plot.py'', ai_dependencies = [] \<rparr>)
   \<and> match_artifact_to_step py_re_match project_files glob_processor ''fig_1.png.bak'' =
       Inr (Some \<lparr> am_path = ''fig_1.png.bak'', am_step_name = ''plot'',
                   am_script_path = Some ''plot.py'', am_line_number = None,
                   am_dependencies = [] \<rparr>)
   \<and> \<not> spec_glob_match ''fig_*.png'' ''fig_1xpng''
   \<and> find_metadata_for_artifact py_re_match glob_processor ''fig_1xpng'' ''artifact'' =
       Inr (Some \<lparr> ai_step = Some ''plot'', ai_script = ''plot.py'', ai_dependencies = [] \<rparr>)
   \<and> match_artifact_to_step py_re_match project_files glob_processor ''fig_1xpng'' =
       Inr (Some \<lparr> am_path = ''fig_1xpng'', am_step_name = ''plot'',
                   am_script_path = Some ''plot.py'', am_line_number = None,
                   am_dependencies = [] \<rparr>)"
  by (simp add: pm_defs pm_example_defs)

lemma sorted_starts_inj:
  "sorted_wrt (<) (map sp_start ms) \<Longrightarrow> m \<in> set ms \<Longrightarrow> m' \<in> set ms
     \<Longrightarrow> sp_start m = sp_start m' \<Longrightarrow> m = m'"
proof (induction ms)
  case Nil
  then show ?case by simp
next
  case (Cons x xs)
  then show ?case by fastforce
qed

lemma unmatched_not_found:
  assumes "sorted_wrt (<) (map sp_start ms)" and "m \<in> set ms"
    and "find_metadata_for_artifact re_match self (sp_group1 m) t = Inr None"
  shows "\<forall>a \<in> set (found_artifacts re_match self t ms). da_match_start a \<noteq> sp_start m"
proof
  fix a
  assume "a \<in> set (found_artifacts re_match self t ms)"
  then obtain m' md where m': "m' \<in> set ms" "da_match_start a = sp_start m'"
    "find_metadata_for_artifact re_match self (sp_group1 m') t = Inr (Some md)"
    by (auto simp: set_found_artifacts)
  show "da_match_start a \<noteq> sp_start m"
  proof
    assume "da_match_start a = sp_start m"
    with m' have "m' = m"
      using sorted_starts_inj [OF assms(1) m'(1) assms(2)] by simp
    with m'(3) assms(3) show False by simp
  qed
qed

lemma found_artifacts_type:
  "a \<in> set (found_artifacts re_match self t ms) \<Longrightarrow> da_type a = t"
  by (auto simp: set_found_artifacts)

lemma reduce_entry_unknown_step:
  assumes "le_type e = Some ''value''" and "le_name e = Some n" and "le_value e = Some v"
    and "le_filepath e = Some script" and "le_lineno e = Some line"
    and "\<forall>t \<in> set (pipeline cfg). \<not> py_in script (get_cmd t)"
  shows "reduce_entry py_str cfg vals e =
           Inr (dict_set n \<lparr> ev_name = n, ev_value = v, ev_formatted_value = py_str v,
                             ev_step = ''unknown'', ev_script = Some script,
                             ev_value_type = ''unknown'', ev_line = Some line \<rparr> vals)"
  using assms
  by (simp add: reduce_entry_def find_step_for_script_def find_step_in_none step_or_unknown_def
      default_value_type_def)

text \<open>
  C4, as the code has it.
  \<^item> A complete \<^verbatim>\<open>value\<close> record whose script path occurs in the command of no step does not
    make the reduction raise: it is stored under its name with the step \<^verbatim>\<open>"unknown"\<close>.
  \<^item> A name that no output pattern matches (the patterns compile) does not make the lookup
    raise: \<^verbatim>\<open>_find_metadata_for_artifact\<close> returns \<^verbatim>\<open>None\<close>.
  \<^item> \<^verbatim>\<open>discover_artifacts_in_latex\<close> then prints a warning and appends nothing. Whenever it
    returns, entries and warnings together number the markers of the document, every
    entry belongs to a marker whose lookup found metadata, and a marker whose lookup found
    none has its warning line among the printed lines and no entry at its offset.
\<close>

theorem unmatched_reference_outcome:
  "(le_type e = Some ''value'' \<and> le_name e = Some n \<and> le_value e = Some v
      \<and> le_filepath e = Some script \<and> le_lineno e = Some line
      \<and> (\<forall>t \<in> set (pipeline cfg). \<not> py_in script (get_cmd t)) \<longrightarrow>
        reduce_entry py_str cfg vals e =
          Inr (dict_set n \<lparr> ev_name = n, ev_value = v, ev_formatted_value = py_str v,
                            ev_step = ''unknown'', ev_script = Some script,
                            ev_value_type = ''unknown'', ev_line = Some line \<rparr> vals))
   \<and> ((\<forall>t \<in> set (pipeline (mp_config self)).
          patterns_compile re_match (sc_outputs t) name
          \<and> \<not> step_matches re_match (sc_outputs t) name) \<longrightarrow>
        find_metadata_for_artifact re_match self name artifact_type = Inr None)
   \<and> (\<forall>content arts prints.
        discover_artifacts_in_latex re_match self (Some content) = Inr (arts, prints) \<longrightarrow>
          length arts + length prints =
            length (marker_finditer value_prefix 0 content)
              + length (marker_finditer artifact_prefix 0 content)
          \<and> (\<forall>a \<in> set arts.
                find_metadata_for_artifact re_match self (da_name a) (da_type a) =
                  Inr (Some (da_metadata a)))
          \<and> (\<forall>m \<in> set (marker_finditer value_prefix 0 content).
                find_metadata_for_artifact re_match self (sp_group1 m) ''value'' = Inr None \<longrightarrow>
                  no_metadata_warning ''value'' (sp_group1 m) \<in> set prints
                  \<and> (\<forall>a \<in> set arts. da_type a = ''value'' \<longrightarrow> da_match_start a \<noteq> sp_start m))
          \<and> (\<forall>m \<in> set (marker_finditer artifact_prefix 0 content).
                find_metadata_for_artifact re_match self (sp_group1 m) ''artifact'' = Inr None \<longrightarrow>
                  no_metadata_warning ''artifact'' (sp_group1 m) \<in> set prints
                  \<and> (\<forall>a \<in> set arts. da_type a = ''artifact'' \<longrightarrow> da_match_start a \<noteq> sp_start m)))"
proof (intro conjI allI impI)
  assume "le_type e = Some ''value'' \<and> le_name e = Some n \<and> le_value e = Some v
      \<and> le_filepath e = Some script \<and> le_lineno e = Some line
      \<and> (\<forall>t \<in> set (pipeline cfg). \<not> py_in script (get_cmd t))"
  then show "reduce_entry py_str cfg vals e =
          Inr (dict_set n \<lparr> ev_name = n, ev_value = v, ev_formatted_value = py_str v,
                            ev_step = ''unknown'', ev_script = Some script,
                            ev_value_type = ''unknown'', ev_line = Some line \<rparr> vals)"
    by (intro reduce_entry_unknown_step) simp_all
next
  assume "\<forall>t \<in> set (pipeline (mp_config self)).
          patterns_compile re_match (sc_outputs t) name
          \<and> \<not> step_matches re_match (sc_outputs t) name"
  then show "find_metadata_for_artifact re_match self name artifact_type = Inr None"
    by (simp add: find_metadata_for_artifact_def find_metadata_in_none)
next
  fix content arts prints
  assume run: "discover_artifacts_in_latex re_match self (Some content) = Inr (arts, prints)"
  let ?V = "marker_finditer value_prefix 0 content"
  let ?A = "marker_finditer artifact_prefix 0 content"
  note d = discover_Inr [OF run]
  show "length arts + length prints = length ?V + length ?A"
    using d(1,2) length_found_missing [OF d(3)] length_found_missing [OF d(4)] by simp
  show "\<forall>a \<in> set arts.
          find_metadata_for_artifact re_match self (da_name a) (da_type a) = Inr (Some (da_metadata a))"
    using d(1) by (auto simp: set_found_artifacts)
  show "\<forall>m \<in> set ?V.
          find_metadata_for_artifact re_match self (sp_group1 m) ''value'' = Inr None \<longrightarrow>
            no_metadata_warning ''value'' (sp_group1 m) \<in> set prints
            \<and> (\<forall>a \<in> set arts. da_type a = ''value'' \<longrightarrow> da_match_start a \<noteq> sp_start m)"
  proof (intro ballI impI conjI)
    fix m
    assume m: "m \<in> set ?V"
      and none: "find_metadata_for_artifact re_match self (sp_group1 m) ''value'' = Inr None"
    show "no_metadata_warning ''value'' (sp_group1 m) \<in> set prints"
      using d(2) m none by (auto simp: set_missing_warnings)
    fix a
    assume a: "a \<in> set arts" "da_type a = ''value''"
    then have "a \<in> set (found_artifacts re_match self ''value'' ?V)"
      using d(1) found_artifacts_type [of a re_match self "''artifact''" ?A] by auto
    then show "da_match_start a \<noteq> sp_start m"
      using unmatched_not_found [OF marker_finditer_sorted m none] by blast
  qed
  show "\<forall>m \<in> set ?A.
          find_metadata_for_artifact re_match self (sp_group1 m) ''artifact'' = Inr None \<longrightarrow>
            no_metadata_warning ''artifact'' (sp_group1 m) \<in> set prints
            \<and> (\<forall>a \<in> set arts. da_type a = ''artifact'' \<longrightarrow> da_match_start a \<noteq> sp_start m)"
  proof (intro ballI impI conjI)
    fix m
    assume m: "m \<in> set ?A"
      and none: "find_metadata_for_artifact re_match self (sp_group1 m) ''artifact'' = Inr None"
    show "no_metadata_warning ''artifact'' (sp_group1 m) \<in> set prints"
      using d(2) m none by (auto simp: set_missing_warnings)
    fix a
    assume a: "a \<in> set arts" "da_type a = ''artifact''"
    then have "a \<in> set (found_artifacts re_match self ''artifact'' ?A)"
      using d(1) found_artifacts_type [of a re_match self "''value''" ?V] by auto
    then show "da_match_start a \<noteq> sp_start m"
      using unmatched_not_found [OF marker_finditer_sorted m none] by blast
  qed
qed

text \<open>
  A \<^verbatim>\<open>loss\<close> record from \<^verbatim>\<open>train.py\<close>, which no step runs, and a document with one declared
  and one undeclared marker: one entry, one warning.
\<close>

theorem unmatched_reference_outcome_witness:
  "reduce_entry py_str_example example_config [] (value_entry ''loss'' 0.5 ''train.py'' 7) =
     Inr [(''loss'', \<lparr> ev_name = ''loss'', ev_value = 0.5, ev_formatted_value = ''0.5'',
                       ev_step = ''unknown'', ev_script = Some ''train.py'',
                       ev_value_type = ''unknown'', ev_line = Some 7 \<rparr>)]
   \<and> find_metadata_for_artifact py_re_match example_processor ''missing'' ''value'' = Inr None
   \<and> discover_artifacts_in_latex py_re_match example_processor (Some doc_mixed) =
       Inr (mixed_result, [no_metadata_warning ''value'' ''missing''])
   \<and> length mixed_result + length [no_metadata_warning ''value'' ''missing''] =
       length (marker_finditer value_prefix 0 doc_mixed)
         + length (marker_finditer artifact_prefix 0 doc_mixed)
   \<and> map da_name mixed_result = [''results/acc.json'']"
proof -
  note inst = unmatched_reference_outcome [where e = "value_entry ''loss'' 0.5 ''train.py'' 7"
      and n = "''loss''" and v = "0.5" and script = "''train.py''" and line = 7
      and cfg = example_config and py_str = py_str_example and vals = "[]"
      and self = example_processor and re_match = py_re_match and name = "''missing''"
      and artifact_type = "''value''"]
  have entry: "le_type (value_entry ''loss'' 0.5 ''train.py'' 7) = Some ''value''
      \<and> le_name (value_entry ''loss'' 0.5 ''train.py'' 7) = Some ''loss''
      \<and> le_value (value_entry ''loss'' 0.5 ''train.py'' 7) = Some 0.5
      \<and> le_filepath (value_entry ''loss'' 0.5 ''train.py'' 7) = Some ''train.py''
      \<and> le_lineno (value_entry ''loss'' 0.5 ''train.py'' 7) = Some 7
      \<and> (\<forall>t \<in> set (pipeline example_config). \<not> py_in ''train.py'' (get_cmd t))"
    by (simp add: value_entry_def pm_defs pm_example_defs)
  have r1: "reduce_entry py_str_example example_config [] (value_entry ''loss'' 0.5 ''train.py'' 7) =
     Inr [(''loss'', \<lparr> ev_name = ''loss'', ev_value = 0.5, ev_formatted_value = ''0.5'',
                       ev_step = ''unknown'', ev_script = Some ''train.py'',
                       ev_value_type = ''unknown'', ev_line = Some 7 \<rparr>)]"
    using inst entry by (simp add: py_str_example_def)
  have nomatch: "\<forall>t \<in> set (pipeline (mp_config example_processor)).
          patterns_compile py_re_match (sc_outputs t) ''missing''
          \<and> \<not> step_matches py_re_match (sc_outputs t) ''missing''"
    by (simp add: pm_defs pm_example_defs)
  have r2: "find_metadata_for_artifact py_re_match example_processor ''missing'' ''value'' = Inr None"
    using inst nomatch by blast
  have run: "discover_artifacts_in_latex py_re_match example_processor (Some doc_mixed) =
       Inr (mixed_result, [no_metadata_warning ''value'' ''missing''])"
    by (simp add: discover_defs doc_defs pm_defs pm_example_defs)
  have r3: "length mixed_result + length [no_metadata_warning ''value'' ''missing''] =
       length (marker_finditer value_prefix 0 doc_mixed)
         + length (marker_finditer artifact_prefix 0 doc_mixed)"
    using inst run by blast
  have r4: "map da_name mixed_result = [''results/acc.json'']"
    by (simp add: mixed_result_def)
  from r1 r2 run r3 r4 show ?thesis by blast
qed

text \<open>
  C4 as stated fails: the document has one marker, \<^verbatim>\<open>\csfvaluelink{missing}\<close>, that no step
  declares; the result holds no entry for it (and none marked \<^verbatim>\<open>unknown\<close>), only a warning
  is printed.
\<close>

theorem unmatched_marker_dropped_counterexample:
  "marker_finditer value_prefix 0 doc_unmatched =
     [\<lparr> sp_start = 4, sp_end = 26, sp_group1 = ''missing'' \<rparr>]
   \<and> marker_finditer artifact_prefix 0 doc_unmatched = []
   \<and> discover_artifacts_in_latex py_re_match example_processor (Some doc_unmatched) =
       Inr ([], [no_metadata_warning ''value'' ''missing''])"
  by (simp add: doc_unmatched_def value_prefix_def artifact_prefix_def marker_at_def
      discover_artifacts_in_latex_def pm_defs pm_example_defs)

lemma find_metadata_in_some:
  assumes "\<forall>t \<in> set steps. py_split (get_cmd t) \<noteq> [] \<and> patterns_compile re_match (sc_outputs t) n"
    and "\<exists>t \<in> set steps. step_matches re_match (sc_outputs t) n"
  shows "\<exists>md. find_metadata_in re_match steps n = Inr (Some md)"
  using assms
  by (induction steps) (auto simp: outputs_match_compiled last_item_def split: bool.splits)

text \<open>
  C7, as the code has it. The two marker forms are \<^verbatim>\<open>\csfvaluelink{NAME}\<close> (kind \<^verbatim>\<open>value\<close>) and
  \<^verbatim>\<open>\csflink{NAME}\<close> (kind \<^verbatim>\<open>artifact\<close>), with a name that is not empty and holds no \<^verbatim>\<open>}\<close>.
  Let such a marker stand in the document after the text \<open>A @ B\<close>, where \<open>A\<close> is empty or
  ends with \<^verbatim>\<open>}\<close> and \<open>B\<close> holds no occurrence of the marker's own prefix (the marker is not
  inside an unclosed marker of its kind). When every step has a command of at least one
  word and every output pattern compiles, and some step's output pattern matches the name,
  \<^verbatim>\<open>discover_artifacts_in_latex\<close> returns and its result holds an artifact of that kind, name
  and offsets with the metadata of the lookup. Conversely every artifact of the result is
  of one of the two kinds and stands in the document as the marker of that kind.
\<close>

theorem csf_markers_recognised:
  assumes kind: "(kind = ''value'' \<and> pfx = value_prefix) \<or> (kind = ''artifact'' \<and> pfx = artifact_prefix)"
    and doc: "content = A @ B @ pfx @ name @ ''}'' @ post"
    and closed: "A = [] \<or> last A = CHR ''}''"
    and free: "\<not> py_in pfx B"
    and name: "name \<noteq> []" "CHR ''}'' \<notin> set name"
    and total: "\<forall>t \<in> set (pipeline (mp_config self)).
                  py_split (get_cmd t) \<noteq> [] \<and> (\<forall>n. patterns_compile re_match (sc_outputs t) n)"
    and matched: "\<exists>t \<in> set (pipeline (mp_config self)). step_matches re_match (sc_outputs t) name"
  shows "\<exists>arts prints md.
           discover_artifacts_in_latex re_match self (Some content) = Inr (arts, prints)
           \<and> find_metadata_for_artifact re_match self name kind = Inr (Some md)
           \<and> \<lparr> da_type = kind, da_name = name,
                da_match_start = length A + length B,
                da_match_end = length A + length B + (length pfx + length name + 1),
                da_metadata = md \<rparr> \<in> set arts
           \<and> (\<forall>a \<in> set arts.
                 da_name a \<noteq> [] \<and> CHR ''}'' \<notin> set (da_name a)
                 \<and> ((da_type a = ''value''
                       \<and> take (da_match_end a - da_match_start a) (drop (da_match_start a) content)
                           = value_prefix @ da_name a @ ''}'')
                    \<or> (da_type a = ''artifact''
                       \<and> take (da_match_end a - da_match_start a) (drop (da_match_start a) content)
                           = artifact_prefix @ da_name a @ ''}'')))"
proof -
  have lookups: "\<exists>r. find_metadata_for_artifact re_match self n t = Inr r" for n t
    using total find_metadata_in_total [of "pipeline (mp_config self)" re_match n]
    by (simp add: find_metadata_for_artifact_def)
  then obtain arts prints where
    run: "discover_artifacts_in_latex re_match self (Some content) = Inr (arts, prints)"
    using discover_total [of re_match self content] by blast
  note d = discover_Inr [OF run]
  from total matched obtain md where
    md: "find_metadata_for_artifact re_match self name kind = Inr (Some md)"
    using find_metadata_in_some [of "pipeline (mp_config self)" re_match name]
    by (auto simp: find_metadata_for_artifact_def)
  let ?m = "\<lparr> sp_start = length A + length B,
               sp_end = length A + length B + (length pfx + length name + 1),
               sp_group1 = name \<rparr>"
  have pf: "pfx \<noteq> []" "hd pfx \<notin> set (tl pfx)" "CHR ''}'' \<notin> set pfx"
    using kind prefix_facts by auto
  have "?m \<in> set (marker_finditer pfx 0 content)"
    unfolding doc marker_finditer_complete [OF pf closed free name] by simp
  with md have "\<lparr> da_type = kind, da_name = name,
                da_match_start = length A + length B,
                da_match_end = length A + length B + (length pfx + length name + 1),
                da_metadata = md \<rparr> \<in> set (found_artifacts re_match self kind (marker_finditer pfx 0 content))"
    by (force simp: set_found_artifacts)
  then have here: "\<lparr> da_type = kind, da_name = name,
                da_match_start = length A + length B,
                da_match_end = length A + length B + (length pfx + length name + 1),
                da_metadata = md \<rparr> \<in> set arts"
    using kind d(1) by auto
  have sound: "\<forall>a \<in> set arts.
                 da_name a \<noteq> [] \<and> CHR ''}'' \<notin> set (da_name a)
                 \<and> ((da_type a = ''value''
                       \<and> take (da_match_end a - da_match_start a) (drop (da_match_start a) content)
                           = value_prefix @ da_name a @ ''}'')
                    \<or> (da_type a = ''artifact''
                       \<and> take (da_match_end a - da_match_start a) (drop (da_match_start a) content)
                           = artifact_prefix @ da_name a @ ''}''))"
  proof
    fix a
    assume "a \<in> set arts"
    then consider
        m where "m \<in> set (marker_finditer value_prefix 0 content)" "da_type a = ''value''"
          "da_name a = sp_group1 m" "da_match_start a = sp_start m" "da_match_end a = sp_end m"
      | m where "m \<in> set (marker_finditer artifact_prefix 0 content)" "da_type a = ''artifact''"
          "da_name a = sp_group1 m" "da_match_start a = sp_start m" "da_match_end a = sp_end m"
      using d(1) by (auto simp: set_found_artifacts)
    then show "da_name a \<noteq> [] \<and> CHR ''}'' \<notin> set (da_name a)
                 \<and> ((da_type a = ''value''
                       \<and> take (da_match_end a - da_match_start a) (drop (da_match_start a) content)
                           = value_prefix @ da_name a @ ''}'')
                    \<or> (da_type a = ''artifact''
                       \<and> take (da_match_end a - da_match_start a) (drop (da_match_start a) content)
                           = artifact_prefix @ da_name a @ ''}''))"
    proof cases
      case 1
      with marker_finditer_sound [OF 1(1)] show ?thesis by simp
    next
      case 2
      with marker_finditer_sound [OF 2(1)] show ?thesis by simp
    qed
  qed
  from run md here sound show ?thesis by blast
qed

text \<open>
  The value marker of \<open>doc_latex\<close> stands after a section command and an artifact marker,
  at offset 46.
\<close>

theorem csf_markers_recognised_witness:
  "\<exists>arts prints md.
     discover_artifacts_in_latex py_re_match example_processor (Some doc_latex) = Inr (arts, prints)
     \<and> find_metadata_for_artifact py_re_match example_processor ''results/acc.json'' ''value'' =
         Inr (Some md)
     \<and> \<lparr> da_type = ''value'', da_name = ''results/acc.json'', da_match_start = 46,
          da_match_end = 77, da_metadata = md \<rparr> \<in> set arts"
proof -
  let ?A = "bslash # ''section{Results} See '' @ artifact_prefix @ ''fig_1.png}''"
  have kind: "(''value'' = ''value'' \<and> value_prefix = value_prefix)
      \<or> (''value'' = ''artifact'' \<and> value_prefix = artifact_prefix)"
    by simp
  have doc: "doc_latex = ?A @ '' and '' @ value_prefix @ ''results/acc.json'' @ ''}'' @ ''.''"
    by (simp add: doc_latex_def)
  have closed: "?A = [] \<or> last ?A = CHR ''}''"
    by (simp add: artifact_prefix_def)
  have free: "\<not> py_in value_prefix '' and ''"
    by (simp add: value_prefix_def)
  have name: "''results/acc.json'' \<noteq> []" "CHR ''}'' \<notin> set ''results/acc.json''"
    by simp_all
  have total: "\<forall>t \<in> set (pipeline (mp_config example_processor)).
                  py_split (get_cmd t) \<noteq> [] \<and> (\<forall>n. patterns_compile py_re_match (sc_outputs t) n)"
    by (simp add: pm_defs pm_example_defs)
  have matched: "\<exists>t \<in> set (pipeline (mp_config example_processor)).
      step_matches py_re_match (sc_outputs t) ''results/acc.json''"
    by (simp add: pm_defs pm_example_defs)
  from csf_markers_recognised [OF kind doc closed free name total matched]
  obtain arts prints md where
    run: "discover_artifacts_in_latex py_re_match example_processor (Some doc_latex) = Inr (arts, prints)"
    and md: "find_metadata_for_artifact py_re_match example_processor ''results/acc.json'' ''value'' =
         Inr (Some md)"
    and mem: "\<lparr> da_type = ''value'', da_name = ''results/acc.json'',
          da_match_start = length ?A + length '' and '',
          da_match_end = length ?A + length '' and ''
                           + (length value_prefix + length ''results/acc.json'' + 1),
          da_metadata = md \<rparr> \<in> set arts"
    by blast
  have len: "length ?A + length '' and '' = 46"
    "46 + (length value_prefix + length ''results/acc.json'' + 1) = 77"
    by code_simp+
  from mem have "\<lparr> da_type = ''value'', da_name = ''results/acc.json'', da_match_start = 46,
          da_match_end = 77, da_metadata = md \<rparr> \<in> set arts"
    by (simp only: len)
  with run md show ?thesis by blast
qed

text \<open>
  C7 as stated fails: the markers \<^verbatim>\<open>\valuelink{fig_1.png}\<close> and \<^verbatim>\<open>\link{fig_1.png}\<close>, whose name
  a step declares, produce no annotation.
\<close>

theorem spec_markers_not_recognised_counterexample:
  "doc_spec_markers = bslash # ''valuelink{fig_1.png} '' @ bslash # ''link{fig_1.png}''
   \<and> step_matches py_re_match (sc_outputs step_analyze) ''fig_1.png''
   \<and> discover_artifacts_in_latex py_re_match example_processor (Some doc_spec_markers) =
       Inr ([], [])"
  by (simp add: discover_defs doc_defs pm_defs pm_example_defs)











end
